theory Spec2Isabelle
  imports Complex_Main "HOL-Library.Word"
begin

unbundle bit_operations_syntax

section \<open>JavaScript strings\<close>

text \<open>
  A JavaScript string is a sequence of UTF-16 code units, here natural numbers (every
  string the decoders below produce has its units below 65536; no function of the model
  does arithmetic that could leave that range).  A Node.js \<open>Buffer\<close> is a sequence of
  bytes.  String literals of the source are written with \<open>ustr\<close>, which maps every
  character of an Isabelle string to the code unit of the same number.
\<close>

type_synonym byte = "8 word"
type_synonym jschar = nat
type_synonym jsstring = "jschar list"

definition ustr :: "string \<Rightarrow> jsstring" where
  "ustr s = map of_char s"

definition uchr :: "char \<Rightarrow> jschar" where
  "uchr c = of_char c"

text \<open>
  \<open>String.prototype.trim\<close> removes WhiteSpace and LineTerminator code points from both
  ends: TAB, LF, VT, FF, CR, SP, NBSP, U+1680, U+2000 to U+200A, U+2028, U+2029, U+202F,
  U+205F, U+3000 and U+FEFF.
\<close>

definition isWhiteSpace :: "jschar \<Rightarrow> bool" where
  "isWhiteSpace c \<longleftrightarrow>
     c = 0x09 \<or> c = 0x0A \<or> c = 0x0B \<or> c = 0x0C \<or> c = 0x0D \<or> c = 0x20 \<or> c = 0xA0 \<or>
     c = 0x1680 \<or> (0x2000 \<le> c \<and> c \<le> 0x200A) \<or> c = 0x2028 \<or> c = 0x2029 \<or>
     c = 0x202F \<or> c = 0x205F \<or> c = 0x3000 \<or> c = 0xFEFF"

definition trim :: "jsstring \<Rightarrow> jsstring" where
  "trim s = rev (dropWhile isWhiteSpace (rev (dropWhile isWhiteSpace s)))"

text \<open>\<open>s.split(sep)\<close> for a separator of one code unit: never the empty list.\<close>

fun split :: "jschar \<Rightarrow> jsstring \<Rightarrow> jsstring list" where
  "split sep [] = [[]]"
| "split sep (c # cs) =
     (if c = sep then [] # split sep cs
      else (case split sep cs of [] \<Rightarrow> [[c]] | r # rs \<Rightarrow> (c # r) # rs))"

text \<open>\<open>xs.join(sep)\<close> on an array of strings.\<close>

fun join :: "jsstring \<Rightarrow> jsstring list \<Rightarrow> jsstring" where
  "join sep [] = []"
| "join sep [x] = x"
| "join sep (x # y # ys) = x @ sep @ join sep (y # ys)"

definition startsWith :: "jsstring \<Rightarrow> jsstring \<Rightarrow> bool" where
  "startsWith s pat \<longleftrightarrow> take (length pat) s = pat"

text \<open>\<open>s.includes(pat)\<close>: \<open>pat\<close> occurs in \<open>s\<close> as a contiguous substring.\<close>

fun str_includes :: "jsstring \<Rightarrow> jsstring \<Rightarrow> bool" where
  "str_includes [] pat = (pat = [])"
| "str_includes (c # cs) pat = (startsWith (c # cs) pat \<or> str_includes cs pat)"

text \<open>The order of \<open><\<close> on strings: code unit by code unit, a proper prefix first.\<close>

fun str_less :: "jsstring \<Rightarrow> jsstring \<Rightarrow> bool" where
  "str_less _ [] = False"
| "str_less [] (_ # _) = True"
| "str_less (a # as) (b # bs) = (a < b \<or> (a = b \<and> str_less as bs))"

section \<open>JavaScript numbers\<close>

text \<open>
  A number is an IEEE 754 double: \<open>NaN\<close>, one of the two infinities, or a finite value,
  held as the rational it denotes.  The two zeros are one value: the routes never divide
  by a computed zero and print their numbers as JSON, where the sign of zero does not
  show.  Every arithmetic operation rounds its exact result to the nearest double, a tie
  going to the even significand (\<open>dbl\<close> below).
\<close>

datatype jsnum = NaN | PosInf | NegInf | Fin rat

text \<open>The number of binary digits of a natural number.\<close>

fun bits :: "nat \<Rightarrow> nat" where
  "bits n = (if n = 0 then 0 else Suc (bits (n div 2)))"

declare bits.simps [simp del]

text \<open>The binary exponent of a positive rational: the \<open>e\<close> with \<open>2 ^ e \<le> x < 2 ^ (e + 1)\<close>.\<close>

definition ilog2 :: "rat \<Rightarrow> int" where
  "ilog2 x = (if 1 \<le> x then int (bits (nat \<lfloor>x\<rfloor>)) - 1 else - int (bits (nat (\<lceil>1 / x\<rceil> - 1))))"

text \<open>The nearest integer, a tie going to the even one.\<close>

definition roundEven :: "rat \<Rightarrow> int" where
  "roundEven x =
     (let f = \<lfloor>x\<rfloor>; d = x - of_int f
      in if d < 1 / 2 \<or> (d = 1 / 2 \<and> even f) then f else f + 1)"

text \<open>
  The double nearest to a rational.  A finite double is an integer \<open>m\<close> of at most 53
  binary digits times a power \<open>2 ^ p\<close> with \<open>- 1074 \<le> p \<le> 971\<close>.  The unit \<open>2 ^ p\<close> is
  that of the binade of the argument, the least one for a subnormal; the argument is
  rounded to a multiple of it, and a result of magnitude \<open>2 ^ 1024\<close> is an infinity.
\<close>

definition dbl :: "rat \<Rightarrow> jsnum" where
  "dbl x =
     (if x = 0 then Fin 0
      else
        (let a = \<bar>x\<bar>; p = max (ilog2 a - 52) (- 1074); m = roundEven (a / 2 powi p)
         in if 971 < p \<or> (p = 971 \<and> m = 2 ^ 53) then (if 0 < x then PosInf else NegInf)
            else Fin (if 0 < x then of_int m * 2 powi p else - (of_int m * 2 powi p))))"

fun n_neg :: "jsnum \<Rightarrow> jsnum" where
  "n_neg NaN = NaN"
| "n_neg PosInf = NegInf"
| "n_neg NegInf = PosInf"
| "n_neg (Fin a) = Fin (- a)"

fun n_add :: "jsnum \<Rightarrow> jsnum \<Rightarrow> jsnum" where
  "n_add NaN _ = NaN"
| "n_add _ NaN = NaN"
| "n_add (Fin a) (Fin b) = dbl (a + b)"
| "n_add PosInf NegInf = NaN"
| "n_add NegInf PosInf = NaN"
| "n_add PosInf _ = PosInf"
| "n_add _ PosInf = PosInf"
| "n_add NegInf _ = NegInf"
| "n_add _ NegInf = NegInf"

definition n_sub :: "jsnum \<Rightarrow> jsnum \<Rightarrow> jsnum" where
  "n_sub a b = n_add a (n_neg b)"

definition n_sign :: "jsnum \<Rightarrow> int" where
  "n_sign a = (case a of NaN \<Rightarrow> 0 | PosInf \<Rightarrow> 1 | NegInf \<Rightarrow> - 1
               | Fin x \<Rightarrow> (if x < 0 then - 1 else if x = 0 then 0 else 1))"

definition n_inf :: "int \<Rightarrow> jsnum" where
  "n_inf s = (if s = 0 then NaN else if 0 < s then PosInf else NegInf)"

fun n_mul :: "jsnum \<Rightarrow> jsnum \<Rightarrow> jsnum" where
  "n_mul NaN _ = NaN"
| "n_mul _ NaN = NaN"
| "n_mul (Fin a) (Fin b) = dbl (a * b)"
| "n_mul a b = n_inf (n_sign a * n_sign b)"

text \<open>
  Division.  A finite nonzero value divided by zero is an infinity whose sign is that of
  the dividend (the divisor is taken to be \<open>+0\<close>); none of the divisions of the two
  routes has a zero divisor, which the theorems about the rate make explicit.
\<close>

fun n_div :: "jsnum \<Rightarrow> jsnum \<Rightarrow> jsnum" where
  "n_div NaN _ = NaN"
| "n_div _ NaN = NaN"
| "n_div (Fin a) (Fin b) = (if b = 0 then n_inf (n_sign (Fin a)) else dbl (a / b))"
| "n_div (Fin a) _ = Fin 0"
| "n_div a (Fin b) = n_inf (n_sign a * (if b < 0 then - 1 else 1))"
| "n_div _ _ = NaN"

text \<open>\<open>a > b\<close>: false whenever an operand is \<open>NaN\<close>.\<close>

fun n_gt :: "jsnum \<Rightarrow> jsnum \<Rightarrow> bool" where
  "n_gt NaN _ = False"
| "n_gt _ NaN = False"
| "n_gt (Fin a) (Fin b) = (b < a)"
| "n_gt PosInf PosInf = False"
| "n_gt PosInf _ = True"
| "n_gt _ PosInf = False"
| "n_gt NegInf _ = False"
| "n_gt _ NegInf = True"

text \<open>
  \<open>Math.round\<close>: the nearest integer, a tie going towards \<open>+\<infinity>\<close>.  The result is exact:
  a double of magnitude \<open>2 ^ 52\<close> or more is an integer already.
\<close>

fun Math_round :: "jsnum \<Rightarrow> jsnum" where
  "Math_round (Fin a) = Fin (of_int \<lfloor>a + 1 / 2\<rfloor>)"
| "Math_round a = a"

text \<open>
  A counter or a length as a number.  An array holds fewer than \<open>2 ^ 32\<close> elements, and
  every natural number up to \<open>2 ^ 53\<close> is a double.
\<close>

definition of_count :: "nat \<Rightarrow> jsnum" where
  "of_count n = Fin (of_nat n)"

subsection \<open>\<open>Number(s)\<close> on a string\<close>

text \<open>
  The StringNumericLiteral grammar: white space is trimmed; the empty string is 0; a
  literal is a binary, octal or hexadecimal integer (\<open>0b\<close>, \<open>0o\<close>, \<open>0x\<close>, no sign) or an
  optionally signed \<open>Infinity\<close> or decimal literal (digits, optional fraction, optional
  exponent).  Everything else is \<open>NaN\<close>.  The value of a literal is the double nearest
  to the number it writes.
\<close>

definition isDigit :: "jschar \<Rightarrow> bool" where
  "isDigit c \<longleftrightarrow> 0x30 \<le> c \<and> c \<le> 0x39"

definition digitOf :: "jschar \<Rightarrow> nat option" where
  "digitOf c =
     (if 0x30 \<le> c \<and> c \<le> 0x39 then Some (c - 0x30)
      else if 0x61 \<le> c \<and> c \<le> 0x66 then Some (c - 0x61 + 10)
      else if 0x41 \<le> c \<and> c \<le> 0x46 then Some (c - 0x41 + 10)
      else None)"

definition isRadixDigit :: "nat \<Rightarrow> jschar \<Rightarrow> bool" where
  "isRadixDigit radix c = (case digitOf c of None \<Rightarrow> False | Some d \<Rightarrow> d < radix)"

definition digitsValue :: "nat \<Rightarrow> jsstring \<Rightarrow> nat" where
  "digitsValue radix ds = foldl (\<lambda>acc c. acc * radix + (case digitOf c of None \<Rightarrow> 0 | Some d \<Rightarrow> d)) 0 ds"

definition radixLiteral :: "nat \<Rightarrow> jsstring \<Rightarrow> jsnum" where
  "radixLiteral radix ds =
     (if ds \<noteq> [] \<and> list_all (isRadixDigit radix) ds then dbl (of_nat (digitsValue radix ds))
      else NaN)"

definition scale10 :: "rat \<Rightarrow> int \<Rightarrow> rat" where
  "scale10 m e = (if 0 \<le> e then m * 10 ^ nat e else m / 10 ^ nat (- e))"

text \<open>The exponent part: empty, or \<open>e\<close>/\<open>E\<close>, an optional sign and at least one digit.\<close>

definition exponentPart :: "jsstring \<Rightarrow> int option" where
  "exponentPart s =
     (case s of [] \<Rightarrow> Some 0
      | c # r \<Rightarrow>
          if c = 0x65 \<or> c = 0x45 then
            (let neg = (r \<noteq> [] \<and> hd r = 0x2D);
                 ds = (if r \<noteq> [] \<and> (hd r = 0x2B \<or> hd r = 0x2D) then tl r else r)
             in if ds \<noteq> [] \<and> list_all isDigit ds
                then Some (if neg then - int (digitsValue 10 ds) else int (digitsValue 10 ds))
                else None)
          else None)"

definition unsignedDecimal :: "jsstring \<Rightarrow> rat option" where
  "unsignedDecimal s =
     (let ip = takeWhile isDigit s; r1 = dropWhile isDigit s;
          dot = (r1 \<noteq> [] \<and> hd r1 = 0x2E);
          fp = (if dot then takeWhile isDigit (tl r1) else []);
          r2 = (if dot then dropWhile isDigit (tl r1) else r1)
      in if ip = [] \<and> fp = [] then None
         else (case exponentPart r2 of None \<Rightarrow> None
               | Some e \<Rightarrow>
                   Some (scale10 (of_nat (digitsValue 10 (ip @ fp))) (e - int (length fp)))))"

definition signedDecimal :: "jsstring \<Rightarrow> jsnum" where
  "signedDecimal s =
     (let neg = (s \<noteq> [] \<and> hd s = 0x2D);
          u = (if s \<noteq> [] \<and> (hd s = 0x2B \<or> hd s = 0x2D) then tl s else s)
      in if u = ustr ''Infinity'' then (if neg then NegInf else PosInf)
         else (case unsignedDecimal u of None \<Rightarrow> NaN
               | Some v \<Rightarrow> dbl (if neg then - v else v)))"

definition Number :: "jsstring \<Rightarrow> jsnum" where
  "Number str =
     (let s = trim str
      in if s = [] then Fin 0
         else if startsWith s (ustr ''0x'') \<or> startsWith s (ustr ''0X'') then radixLiteral 16 (drop 2 s)
         else if startsWith s (ustr ''0o'') \<or> startsWith s (ustr ''0O'') then radixLiteral 8 (drop 2 s)
         else if startsWith s (ustr ''0b'') \<or> startsWith s (ustr ''0B'') then radixLiteral 2 (drop 2 s)
         else signedDecimal s)"

section \<open>Exceptions and sorting\<close>

text \<open>
  A thrown value is an \<open>Error\<close> object with its message, or something else.  The only
  exception the analysis code itself can raise is the \<open>TypeError\<close> of calling \<open>split\<close>
  on \<open>undefined\<close>; its message is the one V8 gives.
\<close>

datatype js_exn = ErrorObj jsstring | Thrown

definition exn_message :: "js_exn \<Rightarrow> jsstring" where
  \<comment> \<open>\<open>error instanceof Error ? error.message : 'Unknown error'\<close>\<close>
  "exn_message e = (case e of ErrorObj m \<Rightarrow> m | Thrown \<Rightarrow> ustr ''Unknown error'')"

definition split_of_undefined :: js_exn where
  "split_of_undefined = ErrorObj (ustr ''Cannot read properties of undefined (reading 'split')'')"

text \<open>
  \<open>Array.prototype.sort\<close> is stable; for a consistent comparator its result is that of
  a stable insertion sort, which places an element before the first one it does not
  exceed.
\<close>

fun insert_by :: "('a \<Rightarrow> 'a \<Rightarrow> int) \<Rightarrow> 'a \<Rightarrow> 'a list \<Rightarrow> 'a list" where
  "insert_by cmp x [] = [x]"
| "insert_by cmp x (y # ys) = (if cmp x y \<le> 0 then x # y # ys else y # insert_by cmp x ys)"

definition js_sort :: "('a \<Rightarrow> 'a \<Rightarrow> int) \<Rightarrow> 'a list \<Rightarrow> 'a list" where
  "js_sort cmp xs = foldr (insert_by cmp) xs []"

text \<open>
  The comparison of \<open>sort()\<close> without a comparator: \<open>undefined\<close> goes last, strings are
  compared by code units.
\<close>

fun SortCompare :: "jsstring option \<Rightarrow> jsstring option \<Rightarrow> int" where
  "SortCompare None None = 0"
| "SortCompare None (Some _) = 1"
| "SortCompare (Some _) None = - 1"
| "SortCompare (Some x) (Some y) = (if str_less x y then - 1 else if str_less y x then 1 else 0)"

section \<open>Work periods (upload route)\<close>

record WorkPeriod =
  start_time :: "jsstring option"
  end_time :: "jsstring option"
  duration_hours :: jsnum
  barcode_count :: nat

text \<open>An element a destructuring pattern finds no value for is \<open>undefined\<close>, \<open>NaN\<close> in arithmetic.\<close>

definition nth_num :: "jsnum list \<Rightarrow> nat \<Rightarrow> jsnum" where
  "nth_num xs i = (if i < length xs then xs ! i else NaN)"

definition parseTimeToMinutes :: "jsstring option \<Rightarrow> js_exn + jsnum" where
  "parseTimeToMinutes timeStr =
     (case timeStr of
        None \<Rightarrow> Inl split_of_undefined
      | Some s \<Rightarrow>
          (let timePart = (case split (uchr CHR ''.'') s of [] \<Rightarrow> [] | p # _ \<Rightarrow> p);
               parts = map Number (split (uchr CHR '':'') timePart);
               hours = nth_num parts 0;
               minutes = nth_num parts 1;
               seconds = nth_num parts 2
           in Inr (n_add (n_add (n_mul hours (Fin 60)) minutes) (n_div seconds (Fin 60)))))"

text \<open>The duration of a period, computed where a period is pushed.\<close>

definition closePeriod :: "WorkPeriod \<Rightarrow> js_exn + WorkPeriod" where
  "closePeriod p =
     (case parseTimeToMinutes (start_time p) of
        Inl e \<Rightarrow> Inl e
      | Inr startMinutes \<Rightarrow>
          (case parseTimeToMinutes (end_time p) of
             Inl e \<Rightarrow> Inl e
           | Inr endMinutes \<Rightarrow>
               Inr (p\<lparr>duration_hours := n_div (n_sub endMinutes startMinutes) (Fin 60)\<rparr>)))"

text \<open>
  The \<open>for\<close> loop of \<open>calculateWorkPeriods\<close>: \<open>prev\<close> is \<open>sortedTimes[i - 1]\<close>, the list
  holds \<open>sortedTimes[i]\<close> and what follows it.
\<close>

fun periodsLoop ::
  "jsstring option \<Rightarrow> jsstring option list \<Rightarrow> WorkPeriod list \<Rightarrow> WorkPeriod \<Rightarrow>
     js_exn + (WorkPeriod list \<times> WorkPeriod)" where
  "periodsLoop prev [] periods currentPeriod = Inr (periods, currentPeriod)"
| "periodsLoop prev (t # ts) periods currentPeriod =
     (case parseTimeToMinutes prev of
        Inl e \<Rightarrow> Inl e
      | Inr prevTime \<Rightarrow>
          (case parseTimeToMinutes t of
             Inl e \<Rightarrow> Inl e
           | Inr currentTime \<Rightarrow>
               if n_gt (n_sub currentTime prevTime) (Fin 30) then
                 (case closePeriod currentPeriod of
                    Inl e \<Rightarrow> Inl e
                  | Inr pushed \<Rightarrow>
                      periodsLoop t ts (periods @ [pushed])
                        \<lparr>start_time = t, end_time = t, duration_hours = Fin 0, barcode_count = 1\<rparr>)
               else
                 periodsLoop t ts periods
                   (currentPeriod\<lparr>end_time := t, barcode_count := barcode_count currentPeriod + 1\<rparr>)))"

definition calculateWorkPeriods :: "jsstring option list \<Rightarrow> js_exn + WorkPeriod list" where
  "calculateWorkPeriods timeEntries =
     (if timeEntries = [] then Inr []
      else
        (case js_sort SortCompare timeEntries of
           [] \<Rightarrow> Inr []
         | t0 # rest \<Rightarrow>
             (case periodsLoop t0 rest []
                     \<lparr>start_time = t0, end_time = t0, duration_hours = Fin 0, barcode_count = 1\<rparr> of
                Inl e \<Rightarrow> Inl e
              | Inr (periods, currentPeriod) \<Rightarrow>
                  (case closePeriod currentPeriod of
                     Inl e \<Rightarrow> Inl e
                   | Inr final \<Rightarrow> Inr (periods @ [final])))))"

section \<open>Line cleaning (both routes)\<close>

definition toLowerAscii :: "jschar \<Rightarrow> jschar" where
  "toLowerAscii c = (if 0x41 \<le> c \<and> c \<le> 0x5A then c + 0x20 else c)"

text \<open>
  The regular expression \<open>/^\d+ rows affected\)?$/i\<close>.  Without the \<open>u\<close> flag, case
  folding never identifies a code unit above 127 with an ASCII one, so a letter of the
  pattern matches exactly its lower and upper case ASCII forms.
\<close>

definition matchesRowsAffected :: "jsstring \<Rightarrow> bool" where
  "matchesRowsAffected s =
     (let ds = takeWhile isDigit s; r = map toLowerAscii (dropWhile isDigit s)
      in ds \<noteq> [] \<and> (r = ustr '' rows affected'' \<or> r = ustr '' rows affected)''))"

definition keepLine :: "jsstring \<Rightarrow> bool" where
  "keepLine line =
     (let trimmed = trim line
      in trimmed \<noteq> [] \<and>
         trimmed \<noteq> [0x0D] \<and>
         \<not> matchesRowsAffected trimmed \<and>
         18 \<le> length (split 0x09 trimmed))"

definition cleanContent :: "jsstring \<Rightarrow> jsstring" where
  "cleanContent csvContent = join [0x0A] (filter keepLine (split 0x0A csvContent))"

section \<open>The parser and the result envelope\<close>

text \<open>
  \<open>Papa.parse\<close> is a library outside the repository: the routes are modelled for any
  parser.  A parsed row is an object from column names to values; the parser returns the
  messages of its errors and the rows, or throws.
\<close>

type_synonym row = "jsstring \<rightharpoonup> jsstring"

record ParseResult =
  parse_errors :: "jsstring list"
  parse_data :: "row list"

type_synonym papa = "jsstring \<Rightarrow> js_exn + ParseResult"

record Statistics =
  total_people :: nat
  total_ranges :: nat
  average_ranges_per_person :: jsnum

record 'p AnalysisData =
  people_data :: "'p list"
  statistics :: Statistics
  filename :: jsstring
  upload_time :: jsstring

record 'p AnalysisResult =
  success :: bool
  data :: "'p AnalysisData option"
  error :: "jsstring option"

text \<open>
  \<open>PersonData\<close> of the default route has three fields; that of the upload route has
  three more.  A name is optional because a property read of a row can give \<open>undefined\<close>.
\<close>

record PersonData =
  firstname :: "jsstring option"
  lastname :: "jsstring option"
  barcode_range_count :: nat

record PersonData_upload = PersonData +
  total_hours_worked :: jsnum
  barcodes_per_hour :: jsnum
  work_periods :: "WorkPeriod list"

definition failure :: "jsstring \<Rightarrow> 'p AnalysisResult" where
  "failure msg = \<lparr>success = False, data = None, error = Some msg\<rparr>"

text \<open>A value inside a template literal: \<open>undefined\<close> prints as its name.\<close>

definition template :: "jsstring option \<Rightarrow> jsstring" where
  "template v = (case v of None \<Rightarrow> ustr ''undefined'' | Some s \<Rightarrow> s)"

definition rowKey :: "row \<Rightarrow> jsstring" where
  \<comment> \<open>\<open>`${row.firstname}_${row.lastname}`\<close>\<close>
  "rowKey r = template (r (ustr ''firstname'')) @ ustr ''_'' @ template (r (ustr ''lastname''))"

definition missingColumns :: "jsstring list \<Rightarrow> row list \<Rightarrow> jsstring list" where
  \<comment> \<open>\<open>requiredColumns.filter(col => !data[0] || !(col in data[0]))\<close>\<close>
  "missingColumns requiredColumns rows =
     filter (\<lambda>col. case rows of [] \<Rightarrow> True | r # _ \<Rightarrow> r col = None) requiredColumns"

text \<open>A \<open>Map\<close> keeps its keys in insertion order: \<open>set\<close> replaces in place or appends.\<close>

fun map_set :: "'k \<Rightarrow> 'v \<Rightarrow> ('k \<times> 'v) list \<Rightarrow> ('k \<times> 'v) list" where
  "map_set k v [] = [(k, v)]"
| "map_set k v (p # ps) = (if fst p = k then (k, v) # ps else p # map_set k v ps)"

definition round2 :: "jsnum \<Rightarrow> jsnum" where
  \<comment> \<open>\<open>Math.round(x * 100) / 100\<close>\<close>
  "round2 x = n_div (Math_round (n_mul x (Fin 100))) (Fin 100)"

definition byCountDesc :: "'a PersonData_scheme \<Rightarrow> 'a PersonData_scheme \<Rightarrow> int" where
  \<comment> \<open>\<open>(a, b) => b.barcode_range_count - a.barcode_range_count\<close>\<close>
  "byCountDesc a b = int (barcode_range_count b) - int (barcode_range_count a)"

text \<open>
  The end of \<open>analyzeBarcodes\<close>, the same text in both routes but for the file name:
  the sort, the statistics and the envelope.
\<close>

definition finishAnalysis ::
  "jsstring \<Rightarrow> jsstring \<Rightarrow> 'a PersonData_scheme list \<Rightarrow> 'a PersonData_scheme AnalysisResult" where
  "finishAnalysis fname now unsorted =
     (let peopleData = js_sort byCountDesc unsorted;
          totalPeople = length peopleData;
          totalRanges = foldl (\<lambda>sum person. sum + barcode_range_count person) 0 peopleData;
          averageRangesPerPerson =
            (if 0 < totalPeople then n_div (of_count totalRanges) (of_count totalPeople) else Fin 0)
      in \<lparr>success = True,
          data = Some \<lparr>people_data = peopleData,
                       statistics = \<lparr>total_people = totalPeople, total_ranges = totalRanges,
                                      average_ranges_per_person = round2 averageRangesPerPerson\<rparr>,
                       filename = fname, upload_time = now\<rparr>,
          error = None\<rparr>)"

section \<open>The upload route\<close>

record PersonEntry =
  entry_firstname :: "jsstring option"
  entry_lastname :: "jsstring option"
  timeEntries :: "jsstring option list"
  barcodeCount :: nat

definition groupRow_upload ::
  "(jsstring \<times> PersonEntry) list \<Rightarrow> row \<Rightarrow> (jsstring \<times> PersonEntry) list" where
  "groupRow_upload personDataMap r =
     (let key = rowKey r;
          m = (if map_of personDataMap key = None
               then map_set key \<lparr>entry_firstname = r (ustr ''firstname''),
                                 entry_lastname = r (ustr ''lastname''),
                                 timeEntries = [], barcodeCount = 0\<rparr> personDataMap
               else personDataMap)
      in case map_of m key of
           None \<Rightarrow> m
         | Some personData \<Rightarrow>
             map_set key (personData\<lparr>timeEntries := timeEntries personData @ [r (ustr ''TimeEntered'')],
                                     barcodeCount := barcodeCount personData + 1\<rparr>) m)"

definition personOfEntry :: "PersonEntry \<Rightarrow> js_exn + PersonData_upload" where
  "personOfEntry person =
     (case calculateWorkPeriods (timeEntries person) of
        Inl e \<Rightarrow> Inl e
      | Inr workPeriods \<Rightarrow>
          (let totalHoursWorked =
                 foldl (\<lambda>sum period. n_add sum (duration_hours period)) (Fin 0) workPeriods;
               barcodesPerHour =
                 (if n_gt totalHoursWorked (Fin 0)
                  then n_div (of_count (barcodeCount person)) totalHoursWorked else Fin 0)
           in Inr \<lparr>firstname = entry_firstname person,
                   lastname = entry_lastname person,
                   barcode_range_count = barcodeCount person,
                   total_hours_worked = round2 totalHoursWorked,
                   barcodes_per_hour = round2 barcodesPerHour,
                   work_periods = workPeriods\<rparr>))"

text \<open>\<open>xs.map(f)\<close> where \<open>f\<close> can throw: the first exception ends the map.\<close>

fun map_exn :: "('a \<Rightarrow> 'e + 'b) \<Rightarrow> 'a list \<Rightarrow> 'e + 'b list" where
  "map_exn f [] = Inr []"
| "map_exn f (x # xs) =
     (case f x of
        Inl e \<Rightarrow> Inl e
      | Inr y \<Rightarrow> (case map_exn f xs of Inl e \<Rightarrow> Inl e | Inr ys \<Rightarrow> Inr (y # ys)))"

definition requiredColumns_upload :: "jsstring list" where
  "requiredColumns_upload =
     [ustr ''firstname'', ustr ''lastname'', ustr ''BarcodeRangeID'', ustr ''TimeEntered'']"

text \<open>The body of the \<open>try\<close> block of the upload route's \<open>analyzeBarcodes\<close>.\<close>

definition analyzeBody_upload ::
  "papa \<Rightarrow> jsstring \<Rightarrow> jsstring \<Rightarrow> js_exn + PersonData_upload AnalysisResult" where
  "analyzeBody_upload parse now csvContent =
     (case parse (cleanContent csvContent) of
        Inl e \<Rightarrow> Inl e
      | Inr parseResult \<Rightarrow>
          (case parse_errors parseResult of
             m # _ \<Rightarrow> Inr (failure (ustr ''CSV parsing error: '' @ m))
           | [] \<Rightarrow>
               (let rows = parse_data parseResult;
                    missing = missingColumns requiredColumns_upload rows
                in if missing \<noteq> [] then
                     Inr (failure (ustr ''Missing required columns: '' @ join (ustr '', '') missing))
                   else
                     (case map_exn personOfEntry (map snd (foldl groupRow_upload [] rows)) of
                        Inl e \<Rightarrow> Inl e
                      | Inr peopleData \<Rightarrow>
                          Inr (finishAnalysis (ustr ''uploaded_file.csv'') now peopleData)))))"

definition analyzeBarcodes_upload ::
  "papa \<Rightarrow> jsstring \<Rightarrow> jsstring \<Rightarrow> PersonData_upload AnalysisResult" where
  "analyzeBarcodes_upload parse now csvContent =
     (case analyzeBody_upload parse now csvContent of
        Inl e \<Rightarrow> failure (ustr ''Error analyzing file: '' @ exn_message e)
      | Inr res \<Rightarrow> res)"

section \<open>The default route\<close>

definition groupRow_default :: "(jsstring \<times> nat) list \<Rightarrow> row \<Rightarrow> (jsstring \<times> nat) list" where
  \<comment> \<open>\<open>personCounts.set(key, (personCounts.get(key) || 0) + 1)\<close>\<close>
  "groupRow_default personCounts r =
     (let key = rowKey r
      in map_set key ((case map_of personCounts key of None \<Rightarrow> 0 | Some c \<Rightarrow> c) + 1) personCounts)"

definition nth_opt :: "'a list \<Rightarrow> nat \<Rightarrow> 'a option" where
  "nth_opt xs i = (if i < length xs then Some (xs ! i) else None)"

definition personOfCount :: "jsstring \<times> nat \<Rightarrow> PersonData" where
  \<comment> \<open>\<open>const [firstname, lastname] = key.split('_')\<close>\<close>
  "personOfCount kc =
     (let parts = split (uchr CHR ''_'') (fst kc)
      in \<lparr>firstname = nth_opt parts 0, lastname = nth_opt parts 1, barcode_range_count = snd kc\<rparr>)"

definition requiredColumns_default :: "jsstring list" where
  "requiredColumns_default = [ustr ''firstname'', ustr ''lastname'', ustr ''BarcodeRangeID'']"

definition analyzeBody_default ::
  "papa \<Rightarrow> jsstring \<Rightarrow> jsstring \<Rightarrow> js_exn + PersonData AnalysisResult" where
  "analyzeBody_default parse now csvContent =
     (case parse (cleanContent csvContent) of
        Inl e \<Rightarrow> Inl e
      | Inr parseResult \<Rightarrow>
          (case parse_errors parseResult of
             m # _ \<Rightarrow> Inr (failure (ustr ''CSV parsing error: '' @ m))
           | [] \<Rightarrow>
               (let rows = parse_data parseResult;
                    missing = missingColumns requiredColumns_default rows
                in if missing \<noteq> [] then
                     Inr (failure (ustr ''Missing required columns: '' @ join (ustr '', '') missing))
                   else
                     Inr (finishAnalysis (ustr ''Taskmaster.csv'') now
                            (map personOfCount (foldl groupRow_default [] rows))))))"

definition analyzeBarcodes_default :: "papa \<Rightarrow> jsstring \<Rightarrow> jsstring \<Rightarrow> PersonData AnalysisResult" where
  "analyzeBarcodes_default parse now csvContent =
     (case analyzeBody_default parse now csvContent of
        Inl e \<Rightarrow> failure (ustr ''Error analyzing file: '' @ exn_message e)
      | Inr res \<Rightarrow> res)"

section \<open>Encoding detection (both routes)\<close>

datatype BufferEncoding = utf16le | utf8 | latin1 | ascii

text \<open>
  \<open>buffer.toString(encoding)\<close>.  UTF-16LE pairs the bytes, low byte first, and ignores
  a last odd byte; Latin-1 takes each byte as a code unit; ASCII does so after clearing
  the high bit.
\<close>

fun decode_utf16le :: "byte list \<Rightarrow> jsstring" where
  "decode_utf16le (lo # hi # bs) = (unat lo + 0x100 * unat hi) # decode_utf16le bs"
| "decode_utf16le _ = []"

definition decode_latin1 :: "byte list \<Rightarrow> jsstring" where
  "decode_latin1 bs = map unat bs"

definition decode_ascii :: "byte list \<Rightarrow> jsstring" where
  "decode_ascii bs = map (\<lambda>b. unat (b AND 0x7F)) bs"

text \<open>
  UTF-8 is decoded as the WHATWG Encoding Standard prescribes: a well-formed sequence
  gives its code point, and every maximal ill-formed part gives U+FFFD, the byte that
  ended it being read again.  The state is the number of continuation bytes still
  needed, the code point so far and the bounds of the next continuation byte.
\<close>

fun utf8_points :: "nat \<Rightarrow> nat \<Rightarrow> nat \<Rightarrow> nat \<Rightarrow> nat list \<Rightarrow> nat list" where
  "utf8_points needed cp lower upper [] = (if needed = 0 then [] else [0xFFFD])"
| "utf8_points needed cp lower upper (b # bs) =
     (let lead =
            (if b \<le> 0x7F then b # utf8_points 0 0 0x80 0xBF bs
             else if 0xC2 \<le> b \<and> b \<le> 0xDF then utf8_points 1 (b mod 0x20) 0x80 0xBF bs
             else if 0xE0 \<le> b \<and> b \<le> 0xEF then
               utf8_points 2 (b mod 0x10) (if b = 0xE0 then 0xA0 else 0x80)
                 (if b = 0xED then 0x9F else 0xBF) bs
             else if 0xF0 \<le> b \<and> b \<le> 0xF4 then
               utf8_points 3 (b mod 0x08) (if b = 0xF0 then 0x90 else 0x80)
                 (if b = 0xF4 then 0x8F else 0xBF) bs
             else 0xFFFD # utf8_points 0 0 0x80 0xBF bs)
      in if needed = 0 then lead
         else if lower \<le> b \<and> b \<le> upper then
           (if needed = 1 then (cp * 0x40 + b mod 0x40) # utf8_points 0 0 0x80 0xBF bs
            else utf8_points (needed - 1) (cp * 0x40 + b mod 0x40) 0x80 0xBF bs)
         else 0xFFFD # lead)"

definition utf16_units :: "nat \<Rightarrow> jsstring" where
  "utf16_units cp =
     (if cp < 0x10000 then [cp]
      else [0xD800 + (cp - 0x10000) div 0x400, 0xDC00 + (cp - 0x10000) mod 0x400])"

definition decode_utf8 :: "byte list \<Rightarrow> jsstring" where
  "decode_utf8 bs = concat (map utf16_units (utf8_points 0 0 0x80 0xBF (map unat bs)))"

definition toString :: "byte list \<Rightarrow> BufferEncoding \<Rightarrow> jsstring" where
  "toString buffer encoding =
     (case encoding of
        utf16le \<Rightarrow> decode_utf16le buffer
      | utf8 \<Rightarrow> decode_utf8 buffer
      | latin1 \<Rightarrow> decode_latin1 buffer
      | ascii \<Rightarrow> decode_ascii buffer)"

definition looksLikeCsv :: "jsstring \<Rightarrow> bool" where
  \<comment> \<open>\<open>text.includes(',') || text.includes('\t') || text.includes('firstname')\<close>\<close>
  "looksLikeCsv text \<longleftrightarrow>
     str_includes text [0x2C] \<or> str_includes text [0x09] \<or> str_includes text (ustr ''firstname'')"

text \<open>
  The loop over the candidate encodings; none of the four decoders throws, so the
  \<open>catch\<close> of the source has nothing to catch.
\<close>

fun firstEncoding :: "byte list \<Rightarrow> BufferEncoding list \<Rightarrow> BufferEncoding" where
  "firstEncoding buffer [] = utf8"
| "firstEncoding buffer (encoding # encodings) =
     (if looksLikeCsv (toString buffer encoding) then encoding
      else firstEncoding buffer encodings)"

definition detectEncoding :: "byte list \<Rightarrow> BufferEncoding" where
  "detectEncoding buffer =
     (if 2 \<le> length buffer \<and> buffer ! 0 = 0xFF \<and> buffer ! 1 = 0xFE then utf16le
      else if 2 \<le> length buffer \<and> buffer ! 0 = 0xFE \<and> buffer ! 1 = 0xFF then utf16le
      else firstEncoding buffer [utf16le, utf8, latin1, ascii])"

section \<open>The handler of the default route\<close>

text \<open>
  What the handler takes from its environment: the working directory, \<open>path.join\<close>,
  \<open>fs.existsSync\<close>, \<open>fs.readFileSync\<close> (which can throw), the parser and the clock.
\<close>

record Runtime =
  cwd :: jsstring
  path_join :: "jsstring list \<Rightarrow> jsstring"
  existsSync :: "jsstring \<Rightarrow> bool"
  readFileSync :: "jsstring \<Rightarrow> js_exn + byte list"
  papa_parse :: papa
  clock :: jsstring

definition defaultFilePath :: "Runtime \<Rightarrow> jsstring" where
  "defaultFilePath rt = path_join rt [cwd rt, ustr ''public'', ustr ''data'', ustr ''Taskmaster.csv'']"

definition GET :: "Runtime \<Rightarrow> PersonData AnalysisResult" where
  "GET rt =
     (if \<not> existsSync rt (defaultFilePath rt) then failure (ustr ''Default file not found'')
      else
        (case readFileSync rt (defaultFilePath rt) of
           Inl e \<Rightarrow> failure (ustr ''Error reading default file: '' @ exn_message e)
         | Inr buffer \<Rightarrow>
             (let encoding = detectEncoding buffer;
                  csvContent = toString buffer encoding
              in analyzeBarcodes_default (papa_parse rt) (clock rt) csvContent)))"

section \<open>Functions of the specification\<close>

text \<open>
  The functions the properties are stated with.  The keys of a list in the order of their
  first occurrence, the number of rows of a key, and the entry the upload route holds for
  a key once all rows are grouped:
\<close>

definition firstSeen :: "'a list \<Rightarrow> 'a list" where
  "firstSeen xs = rev (remdups (rev xs))"

definition countKey :: "row list \<Rightarrow> jsstring \<Rightarrow> nat" where
  "countKey rows k = length (filter (\<lambda>r. rowKey r = k) rows)"

definition entryOf :: "row list \<Rightarrow> jsstring \<Rightarrow> PersonEntry" where
  "entryOf rows k =
     (let rs = filter (\<lambda>r. rowKey r = k) rows
      in \<lparr>entry_firstname = (case rs of [] \<Rightarrow> None | r # _ \<Rightarrow> r (ustr ''firstname'')),
          entry_lastname = (case rs of [] \<Rightarrow> None | r # _ \<Rightarrow> r (ustr ''lastname'')),
          timeEntries = map (\<lambda>r. r (ustr ''TimeEntered'')) rs,
          barcodeCount = length rs\<rparr>)"

text \<open>The people of a result, none if it has no data; the key of a returned person.\<close>

definition peopleOf :: "'p AnalysisResult \<Rightarrow> 'p list" where
  "peopleOf res = (case data res of None \<Rightarrow> [] | Some d \<Rightarrow> people_data d)"

definition personKey :: "'a PersonData_scheme \<Rightarrow> jsstring" where
  "personKey p = template (firstname p) @ ustr ''_'' @ template (lastname p)"

text \<open>
  The statistics of a list of people, as section 4.2 of the specification words them.  The
  average of no people is 0; otherwise it is the quotient of the sum of the counts by the
  number of people, rounded to two decimals: with the quotient counted in hundredths, the
  nearest whole number of hundredths, a half going up, as a double.
\<close>

definition hundredths :: "'a PersonData_scheme list \<Rightarrow> rat" where
  "hundredths people =
     of_nat (sum_list (map barcode_range_count people)) * 100 / of_nat (length people)"

definition statisticsSpec :: "'a PersonData_scheme list \<Rightarrow> Statistics" where
  "statisticsSpec people =
     \<lparr>total_people = length people,
      total_ranges = sum_list (map barcode_range_count people),
      average_ranges_per_person =
        (if length people = 0 then Fin 0
         else dbl (of_int \<lfloor>hundredths people + 1 / 2\<rfloor> / 100))\<rparr>"

text \<open>The statistics of a result, none if it has no data.\<close>

definition statisticsOf :: "'p AnalysisResult \<Rightarrow> Statistics option" where
  "statisticsOf res = map_option statistics (data res)"

text \<open>
  The hours of a person before rounding, the sum of the durations of the work periods;
  and a period whose duration is that between its two ends.
\<close>

definition hoursOf :: "PersonData_upload \<Rightarrow> jsnum" where
  "hoursOf p = foldl (\<lambda>sum period. n_add sum (duration_hours period)) (Fin 0) (work_periods p)"

definition durationFromEnds :: "WorkPeriod \<Rightarrow> bool" where
  "durationFromEnds p \<longleftrightarrow>
     (\<exists>s e. parseTimeToMinutes (start_time p) = Inr s \<and> parseTimeToMinutes (end_time p) = Inr e \<and>
            duration_hours p = n_div (n_sub e s) (Fin 60))"

section \<open>A concrete parser and concrete files\<close>

text \<open>
  Where a property is instantiated at a concrete file, the parser is this reader of
  tab-separated text: lines that are blank after trimming are skipped, the first line
  gives the trimmed column names, every other line gives a row of trimmed values, and a
  line whose number of fields differs from the header's is reported as an error.  On
  text without quotes, with distinct column names and \<open>\n\<close> line ends, these are the
  rows and the verdict of \<open>Papa.parse\<close> under the options of the two routes.
\<close>

definition tsvParse :: papa where
  "tsvParse text =
     (case filter (\<lambda>l. trim l \<noteq> []) (split 0x0A text) of
        [] \<Rightarrow> Inr \<lparr>parse_errors = [], parse_data = []\<rparr>
      | h # ls \<Rightarrow>
          (let header = map trim (split 0x09 h)
           in Inr \<lparr>parse_errors =
                     map (\<lambda>l. ustr ''Field count mismatch'')
                       (filter (\<lambda>l. length (split 0x09 l) \<noteq> length header) ls),
                   parse_data = map (\<lambda>l. map_of (zip header (map trim (split 0x09 l)))) ls\<rparr>))"

text \<open>
  A line of eighteen fields, the four given ones and fourteen more; a header line of
  the given column names and fourteen more; the row parsed from such a pair.
\<close>

definition line18 :: "string \<Rightarrow> string \<Rightarrow> string \<Rightarrow> string \<Rightarrow> jsstring" where
  "line18 a b c d =
     join [0x09] (map ustr [a, b, c, d, ''-'', ''-'', ''-'', ''-'', ''-'', ''-'', ''-'', ''-'', ''-'',
                            ''-'', ''-'', ''-'', ''-'', ''-''])"

definition header18 :: "string list \<Rightarrow> jsstring" where
  "header18 cols =
     join [0x09] (map ustr (cols @ [''e'', ''f'', ''g'', ''h'', ''i'', ''j'', ''k'', ''l'', ''m'',
                                    ''n'', ''o'', ''p'', ''q'', ''r'']))"

definition row18 :: "string list \<Rightarrow> string \<Rightarrow> string \<Rightarrow> string \<Rightarrow> string \<Rightarrow> row" where
  "row18 cols a b c d =
     map_of (zip (map ustr (cols @ [''e'', ''f'', ''g'', ''h'', ''i'', ''j'', ''k'', ''l'', ''m'',
                                    ''n'', ''o'', ''p'', ''q'', ''r'']))
                 (map ustr [a, b, c, d, ''-'', ''-'', ''-'', ''-'', ''-'', ''-'', ''-'', ''-'', ''-'',
                            ''-'', ''-'', ''-'', ''-'', ''-'']))"

text \<open>
  An export of five scans: Ann Lee scans twice, fifteen seconds apart; Bo Oz scans twice,
  an hour apart; a person with the first name \<open>Cy_Di\<close> and the last name \<open>Ek\<close> scans
  once.  The message line of the export tool ends it.  Then its rows, its bytes, and the
  same export without the \<open>lastname\<close> column.
\<close>

definition scansFile :: jsstring where
  "scansFile = join [0x0A]
     [header18 [''firstname'', ''lastname'', ''BarcodeRangeID'', ''TimeEntered''],
      line18 ''Ann'' ''Lee'' ''1'' ''09:00:00.000'',
      line18 ''Bo'' ''Oz'' ''2'' ''10:00:00.000'',
      line18 ''Cy_Di'' ''Ek'' ''3'' ''10:30:00.000'',
      line18 ''Ann'' ''Lee'' ''4'' ''09:00:15.000'',
      line18 ''Bo'' ''Oz'' ''5'' ''11:00:00.000'',
      ustr ''5 rows affected)'']"

definition scansRows :: "row list" where
  "scansRows =
     map (\<lambda>(a, b, c, d). row18 [''firstname'', ''lastname'', ''BarcodeRangeID'', ''TimeEntered''] a b c d)
       [(''Ann'', ''Lee'', ''1'', ''09:00:00.000''),
        (''Bo'', ''Oz'', ''2'', ''10:00:00.000''),
        (''Cy_Di'', ''Ek'', ''3'', ''10:30:00.000''),
        (''Ann'', ''Lee'', ''4'', ''09:00:15.000''),
        (''Bo'', ''Oz'', ''5'', ''11:00:00.000'')]"

definition scansBytes :: "byte list" where
  "scansBytes = map word_of_nat scansFile"

definition noLastnameFile :: jsstring where
  "noLastnameFile = join [0x0A]
     [header18 [''firstname'', ''surname'', ''BarcodeRangeID'', ''TimeEntered''],
      line18 ''Ann'' ''Lee'' ''1'' ''09:00:00.000'']"

text \<open>
  A field without white space, and a table of such fields written as tab-separated
  lines: the cleaning keeps every line of such a table and the parser returns its rows
  (\<open>tsvParse_table\<close> below).
\<close>

definition plainField :: "jsstring \<Rightarrow> bool" where
  "plainField f \<longleftrightarrow> f \<noteq> [] \<and> list_all (\<lambda>c. \<not> isWhiteSpace c) f"

text \<open>
  An export of forty-one scans by forty people, eight first names by five last names:
  Ann Lee scans twice, everybody else once.  The average of 41/40 = 1.025 scans lies
  halfway between 1.02 and 1.03.
\<close>

definition tieTable :: "jsstring list list" where
  "tieTable = map (map ustr)
     ([''firstname'', ''lastname'', ''BarcodeRangeID'', ''TimeEntered'', ''e'', ''f'', ''g'', ''h'',
       ''i'', ''j'', ''k'', ''l'', ''m'', ''n'', ''o'', ''p'', ''q'', ''r''] #
      ([''Ann'', ''Lee'', ''0'', ''09:00:00.000''] @ replicate 14 ''-'') #
      concat (map (\<lambda>a. map (\<lambda>b. [a, b, ''1'', ''09:00:00.000''] @ replicate 14 ''-'')
                             [''Lee'', ''Oz'', ''Ek'', ''Ng'', ''Wu''])
                [''Ann'', ''Bo'', ''Cy'', ''Di'', ''Ed'', ''Flo'', ''Gus'', ''Hal'']))"

definition tieFile :: jsstring where
  "tieFile = join [0x0A] (map (join [0x09]) tieTable)"

definition tieRows :: "row list" where
  "tieRows = map (\<lambda>fs. map_of (zip (hd tieTable) fs)) (tl tieTable)"

text \<open>
  A clock, a runtime without the default file, and one whose default file is the export.
\<close>

definition noon :: jsstring where
  "noon = ustr ''2024-01-01T12:00:00.000Z''"

definition noFileRuntime :: Runtime where
  "noFileRuntime =
     \<lparr>cwd = ustr ''/app'', path_join = join (ustr ''/''),
      existsSync = (\<lambda>p. False),
      readFileSync = (\<lambda>p. Inl (ErrorObj (ustr ''ENOENT: no such file or directory''))),
      papa_parse = tsvParse, clock = noon\<rparr>"

definition bundledRuntime :: Runtime where
  "bundledRuntime =
     noFileRuntime
       \<lparr>existsSync := (\<lambda>p. p = ustr ''/app/public/data/Taskmaster.csv''),
        readFileSync := (\<lambda>p. if p = ustr ''/app/public/data/Taskmaster.csv'' then Inr scansBytes
                               else Inl (ErrorObj (ustr ''ENOENT: no such file or directory'')))\<rparr>"

section \<open>Strings\<close>

text \<open>Facts about \<open>split\<close>, \<open>join\<close>, \<open>includes\<close> and \<open>trim\<close>.\<close>

lemmas str_defs = ustr_def uchr_def trim_def isWhiteSpace_def startsWith_def isDigit_def
  toLowerAscii_def matchesRowsAffected_def keepLine_def

lemma split_head:
  "split c s = takeWhile (\<lambda>x. x \<noteq> c) s #
     (case dropWhile (\<lambda>x. x \<noteq> c) s of [] \<Rightarrow> [] | _ # r \<Rightarrow> split c r)"
  by (induction s) (auto split: list.splits)

lemma split_no_sep: "c \<notin> set s \<Longrightarrow> split c s = [s]"
  by (induction s) auto

lemma split_at_sep: "c \<notin> set a \<Longrightarrow> split c (a @ c # r) = a # split c r"
  by (induction a) auto

lemma split_nonempty [simp]: "split c s \<noteq> []"
  by (induction s) (auto split: list.splits)

lemma length_split: "length (split c s) = Suc (length (filter (\<lambda>x. x = c) s))"
proof (induction s)
  case Nil
  then show ?case by simp
next
  case (Cons x xs)
  obtain r rs where "split c xs = r # rs"
    using split_nonempty [of c xs] by (cases "split c xs") auto
  with Cons show ?case by auto
qed

lemma split_parts_no_sep: "\<forall>l\<in>set (split c s). c \<notin> set l"
proof (induction s)
  case Nil
  then show ?case by simp
next
  case (Cons x xs)
  obtain r rs where "split c xs = r # rs"
    using split_nonempty [of c xs] by (cases "split c xs") auto
  with Cons show ?case by auto
qed

lemma split_join:
  "ls \<noteq> [] \<Longrightarrow> \<forall>l\<in>set ls. c \<notin> set l \<Longrightarrow> split c (join [c] ls) = ls"
proof (induction "[c]" ls rule: join.induct)
  case 1
  then show ?case by simp
next
  case (2 x)
  then show ?case by (simp add: split_no_sep)
next
  case (3 x y ys)
  then show ?case by (simp add: split_at_sep)
qed

lemma join_names: "x \<in> set xs \<Longrightarrow> \<exists>u v. join sep xs = u @ x @ v"
proof (induction sep xs rule: join.induct)
  case (1 sep)
  then show ?case by simp
next
  case (2 sep y)
  then have "join sep [y] = [] @ x @ []" by simp
  then show ?case by blast
next
  case (3 sep y z zs)
  show ?case
  proof (cases "x = y")
    case True
    then have "join sep (y # z # zs) = [] @ x @ (sep @ join sep (z # zs))" by simp
    then show ?thesis by blast
  next
    case False
    with 3 obtain u v where "join sep (z # zs) = u @ x @ v" by auto
    then have "join sep (y # z # zs) = (y @ sep @ u) @ x @ v" by simp
    then show ?thesis by blast
  qed
qed

lemma startsWith_iff: "startsWith t p \<longleftrightarrow> (\<exists>v. t = p @ v)"
proof
  assume "startsWith t p"
  then have "t = p @ drop (length p) t"
    by (metis append_take_drop_id startsWith_def)
  then show "\<exists>v. t = p @ v" ..
next
  assume "\<exists>v. t = p @ v"
  then show "startsWith t p" by (auto simp: startsWith_def)
qed

lemma str_includes_iff: "str_includes t p \<longleftrightarrow> (\<exists>u v. t = u @ p @ v)"
proof (induction t)
  case Nil
  then show ?case by auto
next
  case (Cons c cs)
  show ?case
  proof
    assume "str_includes (c # cs) p"
    then consider "startsWith (c # cs) p" | "str_includes cs p" by auto
    then show "\<exists>u v. c # cs = u @ p @ v"
    proof cases
      case 1
      then obtain v where "c # cs = [] @ p @ v" by (auto simp: startsWith_iff)
      then show ?thesis by blast
    next
      case 2
      with Cons obtain u v where "cs = u @ p @ v" by auto
      then have "c # cs = (c # u) @ p @ v" by simp
      then show ?thesis by blast
    qed
  next
    assume "\<exists>u v. c # cs = u @ p @ v"
    then obtain u v where e: "c # cs = u @ p @ v" by blast
    show "str_includes (c # cs) p"
    proof (cases u)
      case Nil
      with e have "startsWith (c # cs) p" by (auto simp: startsWith_iff)
      then show ?thesis by simp
    next
      case (Cons a u')
      with e have "cs = u' @ p @ v" by simp
      then have "str_includes cs p" using Cons.IH by blast
      then show ?thesis by simp
    qed
  qed
qed

lemma str_includes_single: "str_includes t [c] \<longleftrightarrow> c \<in> set t"
  by (auto simp: str_includes_iff in_set_conv_decomp)

lemma str_includes_subset: "str_includes t p \<Longrightarrow> set p \<subseteq> set t"
  by (auto simp: str_includes_iff)

lemma dropWhile_id: "xs \<noteq> [] \<Longrightarrow> \<not> P (hd xs) \<Longrightarrow> dropWhile P xs = xs"
  by (cases xs) auto

lemma trim_id:
  assumes "s \<noteq> []" and "\<not> isWhiteSpace (hd s)" and "\<not> isWhiteSpace (last s)"
  shows "trim s = s"
proof -
  have "dropWhile isWhiteSpace s = s" using assms by (simp add: dropWhile_id)
  moreover have "dropWhile isWhiteSpace (rev s) = rev s"
    using assms by (simp add: dropWhile_id hd_rev)
  ultimately show ?thesis by (simp add: trim_def)
qed

lemma digit_not_space: "isDigit c \<Longrightarrow> \<not> isWhiteSpace c"
  by (auto simp: isDigit_def isWhiteSpace_def)

lemma filter_dropWhile_le: "length (filter P (dropWhile Q xs)) \<le> length (filter P xs)"
  by (induction xs) auto

lemma filter_trim_le: "length (filter P (trim s)) \<le> length (filter P s)"
proof -
  have "length (filter P (trim s)) = length (filter P (dropWhile isWhiteSpace (rev (dropWhile isWhiteSpace s))))"
    by (simp add: trim_def flip: rev_filter)
  also have "\<dots> \<le> length (filter P (rev (dropWhile isWhiteSpace s)))"
    by (rule filter_dropWhile_le)
  also have "\<dots> = length (filter P (dropWhile isWhiteSpace s))"
    by (simp flip: rev_filter)
  also have "\<dots> \<le> length (filter P s)"
    by (rule filter_dropWhile_le)
  finally show ?thesis .
qed

lemma fields_trim_le: "length (split c (trim s)) \<le> length (split c s)"
  by (simp add: length_split filter_trim_le)

section \<open>Numbers and timestamps\<close>

text \<open>Rounding, \<open>Number\<close> on digits, and the durations that \<open>calculateWorkPeriods\<close> returns.\<close>

lemma floor_numeral_quotient [simp]:
  "\<lfloor>(numeral a :: rat) / numeral b\<rfloor> = numeral a div numeral b"
  using floor_divide_of_int_eq [of "numeral a" "numeral b", where ?'a = rat] by simp

lemma ceiling_numeral_quotient [simp]:
  "\<lceil>(numeral a :: rat) / numeral b\<rceil> = - (- numeral a div numeral b)"
  using floor_divide_of_int_eq [of "- numeral a" "numeral b", where ?'a = rat]
  by (simp add: ceiling_def)

lemma floor_half [simp]: "\<lfloor>(1 / 2 :: rat)\<rfloor> = 0"
  by (simp add: floor_eq_iff)

lemma bits_0 [simp]: "bits 0 = 0"
  by (simp add: bits.simps)

lemma bits_1 [simp]: "bits (Suc 0) = 1"
  by (simp add: bits.simps)

lemma bits_numeral [simp]: "bits (numeral k) = Suc (bits (numeral k div 2))"
  by (subst bits.simps) simp

lemmas dbl_defs = dbl_def ilog2_def roundEven_def Let_def

lemmas num_defs = Number_def radixLiteral_def signedDecimal_def unsignedDecimal_def
  exponentPart_def digitOf_def digitsValue_def scale10_def isRadixDigit_def nth_num_def n_sub_def

lemmas period_defs = parseTimeToMinutes_def closePeriod_def calculateWorkPeriods_def js_sort_def

text \<open>
  The binary exponent is the right one, and a value in the range of the normal doubles
  is rounded with a relative error of at most \<open>2 ^ - 53\<close>.
\<close>

lemma bits_pos: "0 < n \<Longrightarrow> 0 < bits n"
  by (subst bits.simps) simp

lemma bits_bounds: "0 < n \<Longrightarrow> 2 ^ (bits n - 1) \<le> n \<and> n < 2 ^ bits n"
proof (induction n rule: bits.induct)
  case (1 n)
  show ?case
  proof (cases "n div 2 = 0")
    case True
    with "1.prems" have "n = 1" by (simp add: div_eq_0_iff) 
    then show ?thesis by simp
  next
    case False
    then have h: "0 < n div 2" by simp
    from "1.prems" have n0: "n \<noteq> 0" by simp
    from "1.IH" [OF n0 h] have lo: "2 ^ (bits (n div 2) - 1) \<le> n div 2"
      and hi: "n div 2 < 2 ^ bits (n div 2)" by simp_all
    have b: "bits n = Suc (bits (n div 2))" using n0 by (subst bits.simps) simp
    from bits_pos [OF h] have "(2 :: nat) ^ bits (n div 2) = 2 * 2 ^ (bits (n div 2) - 1)"
      by (cases "bits (n div 2)") simp_all
    with lo have "2 ^ bits (n div 2) \<le> 2 * (n div 2)" by simp
    then have l: "2 ^ (bits n - 1) \<le> n" by (simp add: b)
    from hi have "n < 2 * 2 ^ bits (n div 2)" by linarith
    then have u: "n < 2 ^ bits n" by (simp add: b)
    from l u show ?thesis ..
  qed
qed

lemma ilog2_bounds:
  assumes "0 < x"
  shows "2 powi ilog2 x \<le> x \<and> x < 2 powi (ilog2 x + 1)"
proof (cases "1 \<le> x")
  case True
  let ?n = "nat \<lfloor>x\<rfloor>"
  from True have fl: "1 \<le> \<lfloor>x\<rfloor>" by simp
  then have n: "0 < ?n" by simp
  have e: "ilog2 x = int (bits ?n) - 1" using True by (simp add: ilog2_def)
  from bits_pos [OF n] have e': "ilog2 x = int (bits ?n - 1)" unfolding e by simp
  from bits_bounds [OF n] have lo: "2 ^ (bits ?n - 1) \<le> ?n" and hi: "?n < 2 ^ bits ?n" by simp_all
  have nx: "rat_of_nat ?n \<le> x" using fl by (simp add: of_nat_nat)
  have "(2 :: rat) ^ (bits ?n - 1) \<le> of_nat ?n"
    using lo by (metis of_nat_le_iff of_nat_numeral of_nat_power)
  then have "(2 :: rat) ^ (bits ?n - 1) \<le> x" using nx by (rule order_trans)
  moreover have "2 powi ilog2 x = (2 :: rat) ^ (bits ?n - 1)" unfolding e' by (rule power_int_of_nat)
  ultimately have l: "2 powi ilog2 x \<le> x" by simp
  from hi have "Suc ?n \<le> 2 ^ bits ?n" by (rule Suc_leI)
  then have "rat_of_nat (Suc ?n) \<le> 2 ^ bits ?n"
    by (metis of_nat_le_iff of_nat_numeral of_nat_power)
  moreover have "x < rat_of_nat (Suc ?n)" using fl by (simp add: of_nat_nat) linarith
  ultimately have "x < 2 ^ bits ?n" by simp
  moreover have "ilog2 x + 1 = int (bits ?n)" unfolding e by simp
  ultimately have u: "x < 2 powi (ilog2 x + 1)" by simp
  from l u show ?thesis ..
next
  case False
  let ?c = "\<lceil>1 / x\<rceil>"
  let ?n = "nat (?c - 1)"
  let ?k = "bits ?n"
  from False assms have y1: "1 < 1 / x" by simp
  then have c2: "2 \<le> ?c" by (simp add: le_ceiling_iff) 
  then have n: "0 < ?n" by simp
  have e: "ilog2 x = - int ?k" using False by (simp add: ilog2_def)
  from bits_bounds [OF n] have lo: "2 ^ (?k - 1) \<le> ?n" and hi: "?n < 2 ^ ?k" by simp_all
  from c2 have "0 \<le> ?c - 1" by linarith
  then have "rat_of_nat ?n = of_int (?c - 1)" by (rule of_nat_nat)
  then have nc: "rat_of_nat ?n = of_int ?c - 1" by simp
  from hi have "Suc ?n \<le> 2 ^ ?k" by (rule Suc_leI)
  then have "rat_of_nat (Suc ?n) \<le> 2 ^ ?k"
    by (metis of_nat_le_iff of_nat_numeral of_nat_power)
  then have "of_int ?c \<le> (2 :: rat) ^ ?k" using nc by simp
  with le_of_int_ceiling [of "1 / x"] have "1 / x \<le> 2 ^ ?k" by (rule order_trans)
  then have "1 / 2 ^ ?k \<le> x" using assms
    by (simp add: field_simps)
  then have l: "2 powi ilog2 x \<le> x" unfolding e by (simp add: power_int_minus_divide)
  have "(2 :: rat) ^ (?k - 1) \<le> of_nat ?n"
    using lo by (metis of_nat_le_iff of_nat_numeral of_nat_power)
  moreover have "of_int ?c - 1 < 1 / x" using ceiling_correct [of "1 / x"] by simp
  ultimately have "2 ^ (?k - 1) < 1 / x" using nc by linarith
  then have "x < 1 / 2 ^ (?k - 1)" using assms by (simp add: field_simps)
  moreover have "ilog2 x + 1 = - int (?k - 1)" unfolding e using bits_pos [OF n] by simp
  ultimately have u: "x < 2 powi (ilog2 x + 1)" by (simp add: power_int_minus_divide)
  from l u show ?thesis ..
qed


lemma roundEven_of_int [simp]: "roundEven (of_int n) = n"
  by (simp add: roundEven_def)


lemma powi_exp_less:
  assumes "(2 :: rat) powi a < 2 powi b"
  shows "a < b"
proof (rule ccontr)
  assume "\<not> a < b"
  then have "b \<le> a" by simp
  then have "(2 :: rat) powi b \<le> 2 powi a" by (rule power_int_increasing) simp
  with assms show False by simp
qed




text \<open>The natural numbers below \<open>2 ^ 53\<close> are doubles.\<close>

lemma dbl_of_nat:
  assumes "n < 2 ^ 53"
  shows "dbl (of_nat n) = Fin (of_nat n)"
proof (cases "n = 0")
  case True
  then show ?thesis by (simp add: dbl_def)
next
  case False
  let ?x = "rat_of_nat n"
  let ?e = "ilog2 ?x"
  let ?s = "nat (52 - ?e)"
  from False have x0: "0 < ?x" by simp
  from ilog2_bounds [OF x0] have L: "2 powi ?e \<le> ?x" and U: "?x < 2 powi (?e + 1)" by simp_all
  have "?x < 2 ^ 53" using assms by (metis of_nat_less_iff of_nat_numeral of_nat_power)
  then have "?x < 2 powi 53" by simp
  with L have "(2 :: rat) powi ?e < 2 powi 53" by (rule le_less_trans)
  then have e_hi: "?e < 53" by (rule powi_exp_less)
  from False have "(2 :: rat) powi 0 \<le> ?x" by simp
  then have "(2 :: rat) powi 0 < 2 powi (?e + 1)" using U by (rule le_less_trans)
  then have e_lo: "0 < ?e + 1" by (rule powi_exp_less)
  have p: "max (?e - 52) (- 1074) = ?e - 52" using e_lo by simp
  have P: "(2 :: rat) powi (?e - 52) = 1 / 2 ^ ?s"
    using e_hi power_int_minus_divide [of "2 :: rat" "52 - ?e"] by (simp add: power_int_nonneg_exp)
  have q: "?x / (1 / 2 ^ ?s) = of_int (int n * 2 ^ ?s)" by simp
  show ?thesis
    unfolding dbl_def Let_def abs_of_nat p P q roundEven_of_int using x0 e_hi by simp
qed

lemma dbl_zero [simp]: "dbl 0 = Fin 0"
  by (simp add: dbl_def)

lemma round2_zero: "round2 (Fin 0) = Fin 0"
  by (simp add: round2_def)






lemma n_gt_zero_nonzero: "n_gt h (Fin 0) \<Longrightarrow> h \<noteq> Fin 0"
  by auto

lemma digits_trim: "ds \<noteq> [] \<Longrightarrow> list_all isDigit ds \<Longrightarrow> trim ds = ds"
proof (rule trim_id)
  assume ne: "ds \<noteq> []" and dg: "list_all isDigit ds"
  show "ds \<noteq> []" by (rule ne)
  from ne dg have "isDigit (hd ds)" by (cases ds) auto
  then show "\<not> isWhiteSpace (hd ds)" by (rule digit_not_space)
  from ne dg have "isDigit (last ds)" by (simp add: list_all_iff)
  then show "\<not> isWhiteSpace (last ds)" by (rule digit_not_space)
qed

lemma digits_no_prefix:
  assumes "list_all isDigit ds" and "\<not> isDigit c"
  shows "\<not> startsWith ds [a, c]"
proof
  assume "startsWith ds [a, c]"
  then obtain v where "ds = [a, c] @ v" by (auto simp: startsWith_iff)
  with assms show False by simp
qed

lemma Number_digits:
  assumes ne: "ds \<noteq> []" and dg: "list_all isDigit ds"
  shows "Number ds = dbl (of_nat (digitsValue 10 ds))"
proof -
  have t: "trim ds = ds" using ne dg by (rule digits_trim)
  have px: "\<not> startsWith ds (ustr ''0x'')" "\<not> startsWith ds (ustr ''0X'')"
           "\<not> startsWith ds (ustr ''0o'')" "\<not> startsWith ds (ustr ''0O'')"
           "\<not> startsWith ds (ustr ''0b'')" "\<not> startsWith ds (ustr ''0B'')"
    using digits_no_prefix [OF dg] by (simp_all add: ustr_def isDigit_def)
  obtain d r where dr: "ds = d # r" using ne by (cases ds) auto
  with dg have d: "isDigit d" by simp
  then have sign: "d \<noteq> 0x2D" "d \<noteq> 0x2B" by (auto simp: isDigit_def)
  have inf: "ds \<noteq> ustr ''Infinity''"
    using dr d by (auto simp: ustr_def isDigit_def)
  have tw: "takeWhile isDigit ds = ds" "dropWhile isDigit ds = []"
    using dg by (simp_all add: list_all_iff)
  have u: "unsignedDecimal ds = Some (of_nat (digitsValue 10 ds))"
    using ne by (simp add: unsignedDecimal_def tw exponentPart_def scale10_def)
  have "signedDecimal ds = dbl (of_nat (digitsValue 10 ds))"
    using sign inf u by (simp add: signedDecimal_def dr [symmetric] Let_def) (simp add: dr)
  then show ?thesis
    using ne px by (simp add: Number_def t)
qed

lemma parse_clock_time:
  assumes "hh \<noteq> []" "mm \<noteq> []" "ss \<noteq> []"
    and "list_all isDigit hh" "list_all isDigit mm" "list_all isDigit ss"
  shows "parseTimeToMinutes (Some (hh @ ustr '':'' @ mm @ ustr '':'' @ ss @ ustr ''.'' @ ms)) =
     Inr (n_add (n_add (n_mul (dbl (of_nat (digitsValue 10 hh))) (Fin 60))
                       (dbl (of_nat (digitsValue 10 mm))))
                (n_div (dbl (of_nat (digitsValue 10 ss))) (Fin 60)))"
proof -
  have nodot: "46 \<notin> set (hh @ 58 # mm @ 58 # ss)"
    using assms by (auto simp: list_all_iff isDigit_def)
  have nocolon: "58 \<notin> set hh" "58 \<notin> set mm" "58 \<notin> set ss"
    using assms by (auto simp: list_all_iff isDigit_def)
  have "split 46 ((hh @ 58 # mm @ 58 # ss) @ 46 # ms) = (hh @ 58 # mm @ 58 # ss) # split 46 ms"
    using nodot by (rule split_at_sep)
  then have s1: "split 46 (hh @ ustr '':'' @ mm @ ustr '':'' @ ss @ ustr ''.'' @ ms) =
      (hh @ 58 # mm @ 58 # ss) # split 46 ms"
    by (simp add: ustr_def)
  have s2: "split 58 (hh @ 58 # mm @ 58 # ss) = [hh, mm, ss]"
    using nocolon by (simp add: split_at_sep split_no_sep)
  show ?thesis
    using assms
    by (simp add: parseTimeToMinutes_def uchr_def s1 s2 Number_digits nth_num_def)
qed

text \<open>
  With hours and minutes of at most five digits and seconds of at most fifteen, the
  whole minutes are exact: only the sixtieths of the seconds and their sum with the whole
  minutes are rounded.
\<close>

lemma clock_minutes_exact:
  fixes h m s :: nat
  assumes h: "h < 100000" and m: "m < 100000" and s: "s < 10 ^ 15"
  shows "n_add (n_add (n_mul (dbl (of_nat h)) (Fin 60)) (dbl (of_nat m)))
               (n_div (dbl (of_nat s)) (Fin 60)) =
         n_add (Fin (of_nat (h * 60 + m))) (dbl (of_nat s / 60))"
proof -
  have H: "dbl (of_nat h) = Fin (of_nat h)" using h by (intro dbl_of_nat) simp
  have M: "dbl (of_nat m) = Fin (of_nat m)" using m by (intro dbl_of_nat) simp
  have S: "dbl (of_nat s) = Fin (of_nat s)" using s by (intro dbl_of_nat) simp
  have H60: "dbl (of_nat (h * 60)) = Fin (of_nat (h * 60))" using h by (intro dbl_of_nat) simp
  have HM: "dbl (of_nat (h * 60 + m)) = Fin (of_nat (h * 60 + m))"
    using h m by (intro dbl_of_nat) simp
  have e1: "rat_of_nat h * 60 = of_nat (h * 60)" by simp
  have e2: "rat_of_nat (h * 60) + of_nat m = of_nat (h * 60 + m)" by simp
  have a: "n_mul (dbl (of_nat h)) (Fin 60) = Fin (of_nat (h * 60))"
    unfolding H n_mul.simps e1 by (rule H60)
  have b: "n_add (Fin (of_nat (h * 60))) (dbl (of_nat m)) = Fin (of_nat (h * 60 + m))"
    unfolding M n_add.simps e2 by (rule HM)
  have c: "n_div (dbl (of_nat s)) (Fin 60) = dbl (of_nat s / 60)"
    unfolding S by simp
  show ?thesis unfolding a b c ..
qed

lemma parse_ignores_fraction:
  "parseTimeToMinutes (Some s) = parseTimeToMinutes (Some (takeWhile (\<lambda>c. c \<noteq> 46) s))"
proof -
  have "split 46 (takeWhile (\<lambda>c. c \<noteq> 46) s) = [takeWhile (\<lambda>c. c \<noteq> 46) s]"
    by (rule split_no_sep) (auto dest: set_takeWhileD)
  moreover obtain rest where "split 46 s = takeWhile (\<lambda>c. c \<noteq> 46) s # rest"
    using split_head [of 46 s] by simp
  ultimately show ?thesis
    by (simp add: parseTimeToMinutes_def uchr_def)
qed

lemma closePeriod_duration: "closePeriod p = Inr q \<Longrightarrow> durationFromEnds q"
  by (auto simp: closePeriod_def durationFromEnds_def split: sum.splits)

lemma periodsLoop_durations:
  "periodsLoop prev ts periods cur = Inr (periods', cur') \<Longrightarrow>
   list_all durationFromEnds periods \<Longrightarrow> list_all durationFromEnds periods'"
proof (induction prev ts periods cur rule: periodsLoop.induct)
  case (1 prev periods currentPeriod)
  then show ?case by simp
next
  case (2 prev t ts periods currentPeriod)
  from "2.prems"(1) obtain prevTime currentTime where
    pt: "parseTimeToMinutes prev = Inr prevTime" and ct: "parseTimeToMinutes t = Inr currentTime"
    by (auto split: sum.splits)
  show ?case
  proof (cases "n_gt (n_sub currentTime prevTime) (Fin 30)")
    case True
    with "2.prems"(1) pt ct obtain pushed where
      cl: "closePeriod currentPeriod = Inr pushed"
      and rec: "periodsLoop t ts (periods @ [pushed])
                  \<lparr>start_time = t, end_time = t, duration_hours = Fin 0, barcode_count = 1\<rparr> =
                Inr (periods', cur')"
      by (auto split: sum.splits)
    have "list_all durationFromEnds (periods @ [pushed])"
      using "2.prems"(2) closePeriod_duration [OF cl] by simp
    with "2.IH"(1) [OF pt ct True cl rec] show ?thesis .
  next
    case False
    with "2.prems"(1) pt ct have
      rec: "periodsLoop t ts periods
              (currentPeriod\<lparr>end_time := t, barcode_count := barcode_count currentPeriod + 1\<rparr>) =
            Inr (periods', cur')"
      by simp
    from "2.IH"(2) [OF pt ct False rec "2.prems"(2)] show ?thesis .
  qed
qed

lemma calculateWorkPeriods_durations:
  assumes "calculateWorkPeriods ts = Inr ps"
  shows "list_all durationFromEnds ps"
proof (cases "ts = []")
  case True
  with assms show ?thesis by (simp add: calculateWorkPeriods_def)
next
  case False
  show ?thesis
  proof (cases "js_sort SortCompare ts")
    case Nil
    with assms False show ?thesis by (simp add: calculateWorkPeriods_def)
  next
    case (Cons t0 rest)
    with assms False obtain periods cur final where
      loop: "periodsLoop t0 rest []
               \<lparr>start_time = t0, end_time = t0, duration_hours = Fin 0, barcode_count = 1\<rparr> =
             Inr (periods, cur)"
      and cl: "closePeriod cur = Inr final" and ps: "ps = periods @ [final]"
      by (auto simp: calculateWorkPeriods_def split: sum.splits prod.splits)
    have "list_all durationFromEnds periods"
      using periodsLoop_durations [OF loop] by simp
    with closePeriod_duration [OF cl] ps show ?thesis by simp
  qed
qed

section \<open>The lines that are kept\<close>

text \<open>The regular expression as a decomposition of the line, and the lines of the cleaned text.\<close>

lemma space_not_digit: "toLowerAscii c = 32 \<Longrightarrow> \<not> isDigit c"
  by (auto simp: toLowerAscii_def isDigit_def split: if_splits)

lemma rows_affected_head:
  assumes "map toLowerAscii rest = ustr '' rows affected'' \<or>
           map toLowerAscii rest = ustr '' rows affected)''"
  shows "\<exists>c r. rest = c # r \<and> \<not> isDigit c"
proof -
  from assms obtain c r where r: "rest = c # r" by (cases rest) (auto simp: ustr_def)
  with assms have "toLowerAscii c = 32" by (auto simp: ustr_def)
  with r show ?thesis using space_not_digit by blast
qed

lemma matchesRowsAffected_iff:
  "matchesRowsAffected s \<longleftrightarrow>
     (\<exists>ds rest. s = ds @ rest \<and> ds \<noteq> [] \<and> list_all isDigit ds \<and>
        (map toLowerAscii rest = ustr '' rows affected'' \<or>
         map toLowerAscii rest = ustr '' rows affected)''))"
proof
  assume m: "matchesRowsAffected s"
  let ?ds = "takeWhile isDigit s" and ?rest = "dropWhile isDigit s"
  have "s = ?ds @ ?rest" by simp
  moreover have "list_all isDigit ?ds" by (auto simp: list_all_iff dest: set_takeWhileD)
  moreover from m have "?ds \<noteq> []" and
    "map toLowerAscii ?rest = ustr '' rows affected'' \<or>
     map toLowerAscii ?rest = ustr '' rows affected)''"
    by (simp_all add: matchesRowsAffected_def Let_def)
  ultimately show "\<exists>ds rest. s = ds @ rest \<and> ds \<noteq> [] \<and> list_all isDigit ds \<and>
        (map toLowerAscii rest = ustr '' rows affected'' \<or>
         map toLowerAscii rest = ustr '' rows affected)'')"
    by blast
next
  assume "\<exists>ds rest. s = ds @ rest \<and> ds \<noteq> [] \<and> list_all isDigit ds \<and>
        (map toLowerAscii rest = ustr '' rows affected'' \<or>
         map toLowerAscii rest = ustr '' rows affected)'')"
  then obtain ds rest where s: "s = ds @ rest" and ne: "ds \<noteq> []" and dg: "list_all isDigit ds"
    and r: "map toLowerAscii rest = ustr '' rows affected'' \<or>
            map toLowerAscii rest = ustr '' rows affected)''"
    by blast
  from rows_affected_head [OF r] obtain c r' where c: "rest = c # r'" "\<not> isDigit c" by blast
  have tw: "takeWhile isDigit s = ds"
    using s dg c by (simp add: list_all_iff)
  have dw: "dropWhile isDigit s = rest"
    using s dg c by (simp add: list_all_iff)
  show "matchesRowsAffected s"
    using ne r by (simp add: matchesRowsAffected_def Let_def tw dw)
qed

lemma rows_affected_last:
  assumes "map toLowerAscii rest = ustr '' rows affected'' \<or>
           map toLowerAscii rest = ustr '' rows affected)''"
  shows "rest \<noteq> [] \<and> \<not> isWhiteSpace (last rest)"
proof -
  from assms have ne: "rest \<noteq> []" by (auto simp: ustr_def)
  then have "toLowerAscii (last rest) = last (map toLowerAscii rest)" by (simp add: last_map)
  with assms have "toLowerAscii (last rest) = 100 \<or> toLowerAscii (last rest) = 41"
    by (auto simp: ustr_def)
  then have "\<not> isWhiteSpace (last rest)"
    by (auto simp: toLowerAscii_def isWhiteSpace_def split: if_splits)
  with ne show ?thesis by simp
qed

lemma trim_rows_affected:
  assumes "ds \<noteq> []" and "list_all isDigit ds"
    and "map toLowerAscii rest = ustr '' rows affected'' \<or>
         map toLowerAscii rest = ustr '' rows affected)''"
  shows "trim (ds @ rest) = ds @ rest"
proof (rule trim_id)
  show "ds @ rest \<noteq> []" using assms by simp
  have "isDigit (hd ds)" using assms by (cases ds) auto
  then show "\<not> isWhiteSpace (hd (ds @ rest))" using assms by (simp add: digit_not_space)
  show "\<not> isWhiteSpace (last (ds @ rest))" using rows_affected_last [OF assms(3)] by simp
qed

lemma lines_of_cleanContent:
  "split 10 (cleanContent content) =
     (case filter keepLine (split 10 content) of [] \<Rightarrow> [[]] | l # ls \<Rightarrow> l # ls)"
proof (cases "filter keepLine (split 10 content)")
  case Nil
  then show ?thesis by (simp add: cleanContent_def)
next
  case (Cons l ls)
  have "\<forall>l\<in>set (filter keepLine (split 10 content)). 10 \<notin> set l"
    using split_parts_no_sep [of 10 content] by simp
  then have "split 10 (join [10] (filter keepLine (split 10 content))) = filter keepLine (split 10 content)"
    using Cons by (intro split_join) simp_all
  then show ?thesis using Cons by (simp add: cleanContent_def)
qed

text \<open>A table of plain fields passes the cleaning unchanged and parses to its rows.\<close>

lemma set_join: "set (join sep xs) \<subseteq> set sep \<union> \<Union> (set ` set xs)"
  by (induction sep xs rule: join.induct) auto

lemma join_nonempty: "xs \<noteq> [] \<Longrightarrow> last xs \<noteq> [] \<Longrightarrow> join sep xs \<noteq> []"
  by (induction sep xs rule: join.induct) auto

lemma hd_join: "xs \<noteq> [] \<Longrightarrow> hd xs \<noteq> [] \<Longrightarrow> hd (join sep xs) = hd (hd xs)"
  by (induction sep xs rule: join.induct) auto

lemma last_join: "xs \<noteq> [] \<Longrightarrow> last xs \<noteq> [] \<Longrightarrow> last (join sep xs) = last (last xs)"
proof (induction sep xs rule: join.induct)
  case (3 sep x y ys)
  then have "join sep (y # ys) \<noteq> []" by (intro join_nonempty) simp_all
  with 3 show ?case by simp
qed simp_all

lemma matches_no_tab:
  assumes "matchesRowsAffected s"
  shows "9 \<notin> set s"
proof -
  from assms obtain ds rest where s: "s = ds @ rest" and dg: "list_all isDigit ds"
    and r: "map toLowerAscii rest = ustr '' rows affected'' \<or>
            map toLowerAscii rest = ustr '' rows affected)''"
    by (auto simp: matchesRowsAffected_iff)
  have "9 \<notin> set ds" using dg by (auto simp: list_all_iff isDigit_def)
  moreover have "9 \<notin> set rest"
  proof
    assume "9 \<in> set rest"
    then have "toLowerAscii 9 \<in> set (map toLowerAscii rest)" by (metis image_eqI set_map) 
    then have "9 \<in> set (map toLowerAscii rest)" by (simp add: toLowerAscii_def)
    with r show False by (auto simp: ustr_def)
  qed
  ultimately show ?thesis by (simp add: s)
qed

lemma plain_line:
  assumes len: "18 \<le> length fs" and pl: "\<forall>f\<in>set fs. plainField f"
  shows "trim (join [9] fs) = join [9] fs" and "join [9] fs \<noteq> []"
    and "split 9 (join [9] fs) = fs" and "10 \<notin> set (join [9] fs)"
    and "map trim fs = fs" and "keepLine (join [9] fs)"
proof -
  from len have ne: "fs \<noteq> []" by auto
  then have h: "hd fs \<in> set fs" and l: "last fs \<in> set fs" by simp_all
  from pl h have hp: "hd fs \<noteq> []" "\<not> isWhiteSpace (hd (hd fs))"
    by (auto simp: plainField_def list_all_iff)
  from pl l have lp: "last fs \<noteq> []" "\<not> isWhiteSpace (last (last fs))"
    by (auto simp: plainField_def list_all_iff)
  show n: "join [9] fs \<noteq> []" using ne lp(1) by (rule join_nonempty)
  show t: "trim (join [9] fs) = join [9] fs"
    using n hp lp ne by (intro trim_id) (simp_all add: hd_join last_join)
  have notab: "\<forall>f\<in>set fs. 9 \<notin> set f"
    using pl by (auto simp: plainField_def list_all_iff isWhiteSpace_def)
  show s: "split 9 (join [9] fs) = fs" using ne notab by (rule split_join)
  have "\<forall>f\<in>set fs. 10 \<notin> set f"
    using pl by (auto simp: plainField_def list_all_iff isWhiteSpace_def)
  then show "10 \<notin> set (join [9] fs)" using set_join [of "[9]" fs] by auto
  show "map trim fs = fs"
  proof (rule map_idI)
    fix f assume "f \<in> set fs"
    with pl have "f \<noteq> []" "\<not> isWhiteSpace (hd f)" "\<not> isWhiteSpace (last f)"
      by (auto simp: plainField_def list_all_iff)
    then show "trim f = f" by (rule trim_id)
  qed
  have tab: "9 \<in> set (join [9] fs)"
  proof -
    from len obtain x y ys where "fs = x # y # ys" by (cases fs; cases "tl fs") auto
    then show ?thesis by simp
  qed
  then have nm: "\<not> matchesRowsAffected (join [9] fs)" using matches_no_tab by blast
  have cr: "join [9] fs \<noteq> [13]"
  proof
    assume "join [9] fs = [13]"
    with tab show False by simp
  qed
  show "keepLine (join [9] fs)"
    using n cr nm len by (simp add: keepLine_def t s)
qed

lemma tsvParse_table:
  assumes "\<forall>fs\<in>set (hs # fss). length fs = 18 \<and> (\<forall>f\<in>set fs. plainField f)"
  shows "cleanContent (join [10] (map (join [9]) (hs # fss))) = join [10] (map (join [9]) (hs # fss))"
    and "tsvParse (join [10] (map (join [9]) (hs # fss))) =
         Inr \<lparr>parse_errors = [], parse_data = map (\<lambda>fs. map_of (zip hs fs)) fss\<rparr>"
proof -
  let ?ls = "map (join [9]) (hs # fss)"
  have each: "\<And>fs. fs \<in> set (hs # fss) \<Longrightarrow> 18 \<le> length fs \<and> (\<forall>f\<in>set fs. plainField f)"
    using assms by auto
  have lines: "\<And>l. l \<in> set ?ls \<Longrightarrow> \<exists>fs. l = join [9] fs \<and> 18 \<le> length fs \<and> (\<forall>f\<in>set fs. plainField f)"
  proof -
    fix l assume "l \<in> set ?ls"
    then obtain fs where "fs \<in> set (hs # fss)" and "l = join [9] fs"
      unfolding set_map by blast
    with each [of fs] show "\<exists>fs. l = join [9] fs \<and> 18 \<le> length fs \<and> (\<forall>f\<in>set fs. plainField f)"
      by blast
  qed
  have nl: "\<forall>l\<in>set ?ls. 10 \<notin> set l"
    using lines plain_line(4) by blast
  have sp: "split 10 (join [10] ?ls) = ?ls"
    using nl by (intro split_join) simp_all
  have "\<forall>l\<in>set ?ls. keepLine l"
    using lines plain_line(6) by blast
  then have keep: "filter keepLine ?ls = ?ls"
    by (simp only: filter_id_conv)
  show "cleanContent (join [10] ?ls) = join [10] ?ls"
    by (simp only: cleanContent_def sp keep)
  have "\<forall>l\<in>set ?ls. trim l \<noteq> []"
    using lines plain_line(1,2) by metis
  then have nb: "filter (\<lambda>l. trim l \<noteq> []) ?ls = ?ls"
    by (simp only: filter_id_conv)
  have hd: "map trim (split 9 (join [9] hs)) = hs"
    using each [of hs] plain_line(3,5) [of hs] by simp
  have row: "\<And>fs. fs \<in> set fss \<Longrightarrow>
      split 9 (join [9] fs) = fs \<and> map trim fs = fs \<and> length fs = length hs"
  proof -
    fix fs assume "fs \<in> set fss"
    then have m: "fs \<in> set (hs # fss)" by simp
    from each [OF m] have a: "18 \<le> length fs" and b: "\<forall>f\<in>set fs. plainField f" by simp_all
    from assms m have "length fs = 18" by blast
    moreover from assms have "length hs = 18" by simp
    ultimately show "split 9 (join [9] fs) = fs \<and> map trim fs = fs \<and> length fs = length hs"
      using plain_line(3) [OF a b] plain_line(5) [OF a b] by simp
  qed
  have lens: "filter (\<lambda>l. length (split 9 l) \<noteq> length hs) (map (join [9]) fss) = []"
    by (simp add: filter_empty_conv row)
  have rows: "\<forall>fs\<in>set fss. map_of (zip hs (map trim (split 9 (join [9] fs)))) = map_of (zip hs fs)"
  proof
    fix fs assume "fs \<in> set fss"
    from row [OF this] show "map_of (zip hs (map trim (split 9 (join [9] fs)))) = map_of (zip hs fs)"
      by simp
  qed
  show "tsvParse (join [10] ?ls) =
         Inr \<lparr>parse_errors = [], parse_data = map (\<lambda>fs. map_of (zip hs fs)) fss\<rparr>"
    unfolding tsvParse_def sp nb using rows by (simp add: hd lens del: join.simps)
qed


section \<open>Sorting\<close>

text \<open>The sort by descending count is the stable insertion sort of the library on the negated count.\<close>

lemma sum_insert_by:
  "sum_list (map (f :: 'a \<Rightarrow> nat) (insert_by cmp x ys)) = f x + sum_list (map f ys)"
  by (induction ys) (simp_all add: ac_simps)

lemma sum_js_sort:
  "sum_list (map (f :: 'a \<Rightarrow> nat) (js_sort cmp xs)) = sum_list (map f xs)"
  by (induction xs) (simp_all add: js_sort_def sum_insert_by)

lemma js_sort_Nil [simp]: "js_sort cmp [] = []"
  by (simp add: js_sort_def)

lemma insert_by_insort:
  "insert_by byCountDesc x ys = insort_key (\<lambda>p. - int (barcode_range_count p)) x ys"
  by (induction ys) (auto simp: byCountDesc_def)

lemma js_sort_sort_key:
  "js_sort byCountDesc xs = sort_key (\<lambda>p. - int (barcode_range_count p)) xs"
  by (induction xs) (simp_all add: js_sort_def insert_by_insort)

lemma length_js_sort: "length (js_sort byCountDesc xs) = length xs"
  by (simp add: js_sort_sort_key)

lemma set_js_sort: "set (js_sort byCountDesc xs) = set xs"
  by (simp add: js_sort_sort_key)

lemma sorted_js_sort:
  "sorted_wrt (\<lambda>a b. barcode_range_count b \<le> barcode_range_count a) (js_sort byCountDesc xs)"
proof -
  have "sorted (map (\<lambda>p. - int (barcode_range_count p)) (js_sort byCountDesc xs))"
    by (simp add: js_sort_sort_key)
  then show ?thesis
    by (simp add: sorted_wrt_map)
qed

lemma adjacent_js_sort:
  assumes "Suc i < length (js_sort byCountDesc xs)"
  shows "barcode_range_count (js_sort byCountDesc xs ! Suc i)
           \<le> barcode_range_count (js_sort byCountDesc xs ! i)"
  using sorted_js_sort [of xs] assms by (simp add: sorted_wrt_iff_nth_less)

lemma stable_js_sort:
  "filter (\<lambda>p. barcode_range_count p = k) (js_sort byCountDesc xs) =
   filter (\<lambda>p. barcode_range_count p = k) xs"
proof -
  have "filter (\<lambda>p. - int (barcode_range_count p) = - int k)
          (sort_key (\<lambda>p. - int (barcode_range_count p)) xs)
      = filter (\<lambda>p. - int (barcode_range_count p) = - int k) xs"
    by (rule sort_key_stable)
  then show ?thesis by (simp add: js_sort_sort_key)
qed

lemma distinct_js_sort: "distinct (map f (js_sort byCountDesc xs)) = distinct (map f xs)"
  by (simp add: distinct_map js_sort_sort_key)

lemma foldl_count_sum:
  "foldl (\<lambda>sum person. sum + barcode_range_count person) a xs =
   a + sum_list (map barcode_range_count xs)"
  by (induction xs arbitrary: a) simp_all

section \<open>Grouping\<close>

text \<open>After the grouping pass the map holds, for the keys in order of first occurrence, the number of rows of the key (default route) or the entry \<open>entryOf\<close> (upload route).\<close>

lemma firstSeen_snoc:
  "firstSeen (xs @ [x]) = (if x \<in> set xs then firstSeen xs else firstSeen xs @ [x])"
  by (simp add: firstSeen_def)

lemma set_firstSeen [simp]: "set (firstSeen xs) = set xs"
  by (simp add: firstSeen_def)

lemma distinct_firstSeen [simp]: "distinct (firstSeen xs)"
  by (simp add: firstSeen_def)

lemma firstSeen_Nil [simp]: "firstSeen [] = []"
  by (simp add: firstSeen_def)

lemma map_of_tabulate:
  "map_of (map (\<lambda>k. (k, g k)) ks) k = (if k \<in> set ks then Some (g k) else None)"
  by (induction ks) auto

lemma map_set_fresh:
  "k \<notin> set ks \<Longrightarrow> map_set k v (map (\<lambda>k'. (k', g k')) ks) = map (\<lambda>k'. (k', g k')) ks @ [(k, v)]"
  by (induction ks) auto

lemma map_set_present:
  "k \<in> set ks \<Longrightarrow> distinct ks \<Longrightarrow>
   map_set k v (map (\<lambda>k'. (k', g k')) ks) = map (\<lambda>k'. (k', (g(k := v)) k')) ks"
  by (induction ks) auto

lemma map_set_last:
  "k \<notin> set ks \<Longrightarrow>
   map_set k v (map (\<lambda>k'. (k', g k')) ks @ [(k, w)]) = map (\<lambda>k'. (k', g k')) ks @ [(k, v)]"
  by (induction ks) auto

lemma map_of_last:
  "k \<notin> set ks \<Longrightarrow> map_of (map (\<lambda>k'. (k', g k')) ks @ [(k, w)]) k = Some w"
  by (induction ks) auto

lemma countKey_snoc:
  "countKey (rows @ [r]) k = countKey rows k + (if rowKey r = k then 1 else 0)"
  by (simp add: countKey_def)

lemma countKey_absent: "k \<notin> set (map rowKey rows) \<Longrightarrow> countKey rows k = 0"
  by (induction rows) (auto simp: countKey_def)

lemma group_default:
  "foldl groupRow_default [] rows =
   map (\<lambda>k. (k, countKey rows k)) (firstSeen (map rowKey rows))"
proof (induction rows rule: rev_induct)
  case Nil
  then show ?case by simp
next
  case (snoc r rows)
  let ?ks = "firstSeen (map rowKey rows)"
  let ?k = "rowKey r"
  let ?m = "map (\<lambda>k. (k, countKey rows k)) ?ks"
  have step: "foldl groupRow_default [] (rows @ [r]) = groupRow_default ?m r"
    using snoc by simp
  show ?case
  proof (cases "?k \<in> set (map rowKey rows)")
    case True
    then have isin: "?k \<in> set ?ks" by simp
    have "groupRow_default ?m r = map (\<lambda>k'. (k', ((countKey rows)(?k := countKey rows ?k + 1)) k')) ?ks"
      using isin by (simp add: groupRow_default_def Let_def map_of_tabulate map_set_present)
    also have "\<dots> = map (\<lambda>k. (k, countKey (rows @ [r]) k)) ?ks"
      by (simp add: countKey_snoc)
    also have "\<dots> = map (\<lambda>k. (k, countKey (rows @ [r]) k)) (firstSeen (map rowKey (rows @ [r])))"
      using True by (simp add: firstSeen_snoc)
    finally show ?thesis using step by simp
  next
    case False
    then have nin: "?k \<notin> set ?ks" by simp
    have zero: "countKey rows ?k = 0"
      using False by (rule countKey_absent)
    have "groupRow_default ?m r = ?m @ [(?k, 1)]"
      using nin by (simp add: groupRow_default_def Let_def map_of_tabulate map_set_fresh)
    also have "\<dots> = map (\<lambda>k. (k, countKey (rows @ [r]) k)) (?ks @ [?k])"
      using nin zero by (auto simp: countKey_snoc)
    also have "\<dots> = map (\<lambda>k. (k, countKey (rows @ [r]) k)) (firstSeen (map rowKey (rows @ [r])))"
      using False by (simp add: firstSeen_snoc)
    finally show ?thesis using step by simp
  qed
qed

lemma filter_key_absent: "k \<notin> set (map rowKey rows) \<Longrightarrow> filter (\<lambda>r. rowKey r = k) rows = []"
  by (induction rows) auto

lemma filter_key_present: "k \<in> set (map rowKey rows) \<Longrightarrow> filter (\<lambda>r. rowKey r = k) rows \<noteq> []"
  by (induction rows) auto

lemma entryOf_snoc_other: "rowKey r \<noteq> k \<Longrightarrow> entryOf (rows @ [r]) k = entryOf rows k"
  by (simp add: entryOf_def)

lemma entryOf_snoc_fresh:
  "rowKey r \<notin> set (map rowKey rows) \<Longrightarrow>
   entryOf (rows @ [r]) (rowKey r) =
     \<lparr>entry_firstname = r (ustr ''firstname''), entry_lastname = r (ustr ''lastname''),
      timeEntries = [r (ustr ''TimeEntered'')], barcodeCount = 1\<rparr>"
  by (simp add: entryOf_def filter_key_absent)

lemma entryOf_snoc_seen:
  "rowKey r \<in> set (map rowKey rows) \<Longrightarrow>
   entryOf (rows @ [r]) (rowKey r) =
     (entryOf rows (rowKey r))
       \<lparr>timeEntries := timeEntries (entryOf rows (rowKey r)) @ [r (ustr ''TimeEntered'')],
        barcodeCount := barcodeCount (entryOf rows (rowKey r)) + 1\<rparr>"
  using filter_key_present [of "rowKey r" rows]
  by (auto simp: entryOf_def Let_def split: list.splits)

lemma group_upload:
  "foldl groupRow_upload [] rows =
   map (\<lambda>k. (k, entryOf rows k)) (firstSeen (map rowKey rows))"
proof (induction rows rule: rev_induct)
  case Nil
  then show ?case by simp
next
  case (snoc r rows)
  let ?ks = "firstSeen (map rowKey rows)"
  let ?k = "rowKey r"
  let ?m = "map (\<lambda>k. (k, entryOf rows k)) ?ks"
  have step: "foldl groupRow_upload [] (rows @ [r]) = groupRow_upload ?m r"
    using snoc by simp
  show ?case
  proof (cases "?k \<in> set (map rowKey rows)")
    case True
    then have isin: "?k \<in> set ?ks" by simp
    have "groupRow_upload ?m r =
        map (\<lambda>k'. (k', ((entryOf rows)(?k := entryOf (rows @ [r]) ?k)) k')) ?ks"
      using isin entryOf_snoc_seen [OF True]
      by (simp add: groupRow_upload_def Let_def map_of_tabulate map_set_present)
    also have "\<dots> = map (\<lambda>k. (k, entryOf (rows @ [r]) k)) ?ks"
      by (auto simp: entryOf_snoc_other)
    also have "\<dots> = map (\<lambda>k. (k, entryOf (rows @ [r]) k)) (firstSeen (map rowKey (rows @ [r])))"
      using True by (simp add: firstSeen_snoc)
    finally show ?thesis using step by simp
  next
    case False
    then have nin: "?k \<notin> set ?ks" by simp
    let ?init = "\<lparr>entry_firstname = r (ustr ''firstname''), entry_lastname = r (ustr ''lastname''),
                   timeEntries = [], barcodeCount = 0\<rparr>"
    have m1: "(if map_of ?m ?k = None then map_set ?k ?init ?m else ?m) = ?m @ [(?k, ?init)]"
      using nin by (simp add: map_of_tabulate map_set_fresh)
    have "groupRow_upload ?m r =
        (case map_of (?m @ [(?k, ?init)]) ?k of
           None \<Rightarrow> ?m @ [(?k, ?init)]
         | Some personData \<Rightarrow>
             map_set ?k (personData\<lparr>timeEntries := timeEntries personData @ [r (ustr ''TimeEntered'')],
                                    barcodeCount := barcodeCount personData + 1\<rparr>)
               (?m @ [(?k, ?init)]))"
      by (simp only: groupRow_upload_def Let_def m1)
    also have "\<dots> = ?m @ [(?k, ?init\<lparr>timeEntries := timeEntries ?init @ [r (ustr ''TimeEntered'')],
                                       barcodeCount := barcodeCount ?init + 1\<rparr>)]"
      by (simp only: map_of_last [OF nin] option.case map_set_last [OF nin])
    also have "\<dots> = ?m @ [(?k, entryOf (rows @ [r]) ?k)]"
      using entryOf_snoc_fresh [OF False] by simp
    also have "\<dots> = map (\<lambda>k. (k, entryOf (rows @ [r]) k)) (?ks @ [?k])"
    proof -
      have "entryOf (rows @ [r]) k = entryOf rows k" if "k \<in> set ?ks" for k
        using that nin by (intro entryOf_snoc_other) auto
      then show ?thesis by simp
    qed
    also have "\<dots> = map (\<lambda>k. (k, entryOf (rows @ [r]) k)) (firstSeen (map rowKey (rows @ [r])))"
      using False by (simp add: firstSeen_snoc)
    finally show ?thesis using step by simp
  qed
qed

lemma sum_indicator:
  "distinct ks \<Longrightarrow>
   sum_list (map (\<lambda>k. if k0 = k then (1::nat) else 0) ks) = (if k0 \<in> set ks then 1 else 0)"
  by (induction ks) auto

lemma sum_countKey:
  "sum_list (map (countKey rows) (firstSeen (map rowKey rows))) = length rows"
proof (induction rows rule: rev_induct)
  case Nil
  then show ?case by simp
next
  case (snoc r rows)
  let ?ks = "firstSeen (map rowKey rows)"
  have split: "sum_list (map (countKey (rows @ [r])) ?ks) =
        sum_list (map (countKey rows) ?ks) +
        sum_list (map (\<lambda>k. if rowKey r = k then 1 else 0) ?ks)"
  proof -
    have eq: "map (countKey (rows @ [r])) ?ks =
          map (\<lambda>k. countKey rows k + (if rowKey r = k then 1 else 0)) ?ks"
      by (rule map_ext) (simp add: countKey_snoc)
    show ?thesis by (simp only: eq sum_list_addf)
  qed
  show ?case
  proof (cases "rowKey r \<in> set (map rowKey rows)")
    case True
    then show ?thesis
      using snoc split by (simp add: firstSeen_snoc sum_indicator)
  next
    case False
    then have "countKey (rows @ [r]) (rowKey r) = 1"
      by (simp add: countKey_snoc countKey_absent)
    then show ?thesis
      using False snoc split by (simp add: firstSeen_snoc sum_indicator)
  qed
qed

lemma entryOf_key:
  assumes "k \<in> set (map rowKey rows)"
  shows "template (entry_firstname (entryOf rows k)) @ ustr ''_'' @
         template (entry_lastname (entryOf rows k)) = k"
proof -
  obtain r rs where f: "filter (\<lambda>r. rowKey r = k) rows = r # rs"
    using filter_key_present [OF assms] by (cases "filter (\<lambda>r. rowKey r = k) rows") auto
  then have "r \<in> set (filter (\<lambda>r. rowKey r = k) rows)" by simp
  then have "rowKey r = k" by simp
  then show ?thesis using f by (simp add: entryOf_def rowKey_def)
qed

lemma entryOf_count: "barcodeCount (entryOf rows k) = countKey rows k"
  by (simp add: entryOf_def countKey_def Let_def)

section \<open>The two routes\<close>

text \<open>What a successful result is made of, and what a failure looks like.\<close>

lemma finishAnalysis_data:
  "finishAnalysis fname now unsorted =
     \<lparr>success = True,
      data = Some \<lparr>people_data = js_sort byCountDesc unsorted,
                   statistics =
                     \<lparr>total_people = length unsorted,
                      total_ranges = sum_list (map barcode_range_count unsorted),
                      average_ranges_per_person =
                        round2 (if unsorted = [] then Fin 0
                                else n_div (of_count (sum_list (map barcode_range_count unsorted)))
                                       (of_count (length unsorted)))\<rparr>,
                   filename = fname, upload_time = now\<rparr>,
      error = None\<rparr>"
proof (cases "unsorted = []")
  case True
  then show ?thesis by (simp add: finishAnalysis_def)
next
  case False
  then have "0 < length (js_sort byCountDesc unsorted)" by (simp add: length_js_sort)
  then show ?thesis
    using False
    by (simp add: finishAnalysis_def Let_def foldl_count_sum sum_js_sort)
      (simp add: length_js_sort)
qed

lemma upload_success:
  assumes "success (analyzeBarcodes_upload parse now content)"
  shows "\<exists>pr people.
    parse (cleanContent content) = Inr pr \<and> parse_errors pr = [] \<and>
    missingColumns requiredColumns_upload (parse_data pr) = [] \<and>
    map_exn personOfEntry (map snd (foldl groupRow_upload [] (parse_data pr))) = Inr people \<and>
    analyzeBarcodes_upload parse now content = finishAnalysis (ustr ''uploaded_file.csv'') now people"
  using assms
  by (auto simp: analyzeBarcodes_upload_def analyzeBody_upload_def failure_def Let_def
      split: sum.splits list.splits if_splits)

lemma default_success:
  assumes "success (analyzeBarcodes_default parse now content)"
  shows "\<exists>pr.
    parse (cleanContent content) = Inr pr \<and> parse_errors pr = [] \<and>
    missingColumns requiredColumns_default (parse_data pr) = [] \<and>
    analyzeBarcodes_default parse now content =
       finishAnalysis (ustr ''Taskmaster.csv'') now
         (map personOfCount (foldl groupRow_default [] (parse_data pr)))"
  using assms
  by (auto simp: analyzeBarcodes_default_def analyzeBody_default_def failure_def Let_def
      split: sum.splits list.splits if_splits)

lemma map_exn_Inr:
  "map_exn f xs = Inr ys \<Longrightarrow> list_all2 (\<lambda>x y. f x = Inr y) xs ys"
  by (induction xs arbitrary: ys) (auto split: sum.splits)

lemma map_exn_member:
  "map_exn f xs = Inr ys \<Longrightarrow> y \<in> set ys \<Longrightarrow> \<exists>x\<in>set xs. f x = Inr y"
  by (induction xs arbitrary: ys) (auto split: sum.splits)

lemma list_all2_map_eq:
  "list_all2 P xs ys \<Longrightarrow> (\<And>x y. x \<in> set xs \<Longrightarrow> P x y \<Longrightarrow> f y = g x) \<Longrightarrow> map f ys = map g xs"
  by (induction rule: list_all2_induct) auto

lemma personOfEntry_fields:
  "personOfEntry e = Inr p \<Longrightarrow>
   firstname p = entry_firstname e \<and> lastname p = entry_lastname e \<and>
   barcode_range_count p = barcodeCount e"
  by (auto simp: personOfEntry_def Let_def split: sum.splits)

lemma personOfEntry_rate:
  assumes "personOfEntry e = Inr p"
  shows "total_hours_worked p = round2 (hoursOf p)"
    and "barcodes_per_hour p =
           (if n_gt (hoursOf p) (Fin 0)
            then round2 (n_div (of_count (barcode_range_count p)) (hoursOf p)) else Fin 0)"
  using assms
  by (auto simp: personOfEntry_def Let_def hoursOf_def round2_zero split: sum.splits)

lemma upload_people:
  assumes "map_exn personOfEntry (map snd (foldl groupRow_upload [] rows)) = Inr people"
  shows "map personKey people = firstSeen (map rowKey rows)"
    and "map barcode_range_count people = map (countKey rows) (firstSeen (map rowKey rows))"
proof -
  let ?ks = "firstSeen (map rowKey rows)"
  have all2: "list_all2 (\<lambda>e p. personOfEntry e = Inr p) (map (entryOf rows) ?ks) people"
    using map_exn_Inr [OF assms] by (simp add: group_upload comp_def)
  have "map personKey people =
        map (\<lambda>e. template (entry_firstname e) @ ustr ''_'' @ template (entry_lastname e))
          (map (entryOf rows) ?ks)"
    using all2 by (rule list_all2_map_eq) (simp add: personKey_def personOfEntry_fields)
  also have "\<dots> = map (\<lambda>k. template (entry_firstname (entryOf rows k)) @ ustr ''_'' @
                               template (entry_lastname (entryOf rows k))) ?ks"
    by (simp add: comp_def)
  also have "\<dots> = ?ks"
    by (rule map_idI) (simp add: entryOf_key)
  finally show "map personKey people = ?ks" .
  have "map barcode_range_count people = map barcodeCount (map (entryOf rows) ?ks)"
    using all2 by (rule list_all2_map_eq) (simp add: personOfEntry_fields)
  then show "map barcode_range_count people = map (countKey rows) ?ks"
    by (simp add: comp_def entryOf_count)
qed

lemma upload_result:
  assumes "success (analyzeBarcodes_upload parse now content)"
    and "parse (cleanContent content) = Inr pr"
  shows "\<exists>people st.
    map personKey people = firstSeen (map rowKey (parse_data pr)) \<and>
    map barcode_range_count people =
      map (countKey (parse_data pr)) (firstSeen (map rowKey (parse_data pr))) \<and>
    data (analyzeBarcodes_upload parse now content) =
      Some \<lparr>people_data = js_sort byCountDesc people, statistics = st,
            filename = ustr ''uploaded_file.csv'', upload_time = now\<rparr>"
proof -
  from upload_success [OF assms(1)] assms(2) obtain people where
    m: "map_exn personOfEntry (map snd (foldl groupRow_upload [] (parse_data pr))) = Inr people"
    and r: "analyzeBarcodes_upload parse now content =
            finishAnalysis (ustr ''uploaded_file.csv'') now people"
    by auto
  show ?thesis
    using upload_people [OF m] r by (auto simp: finishAnalysis_data)
qed

lemma default_result:
  assumes "success (analyzeBarcodes_default parse now content)"
    and "parse (cleanContent content) = Inr pr"
  shows "\<exists>st. data (analyzeBarcodes_default parse now content) =
      Some \<lparr>people_data =
              js_sort byCountDesc
                (map (\<lambda>k. personOfCount (k, countKey (parse_data pr) k))
                   (firstSeen (map rowKey (parse_data pr)))),
            statistics = st,
            filename = ustr ''Taskmaster.csv'', upload_time = now\<rparr>"
proof -
  from default_success [OF assms(1)] assms(2) have
    "analyzeBarcodes_default parse now content =
       finishAnalysis (ustr ''Taskmaster.csv'') now
         (map personOfCount (foldl groupRow_default [] (parse_data pr)))"
    by auto
  then show ?thesis
    by (simp add: finishAnalysis_data group_default comp_def)
qed

lemma count_personOfCount [simp]: "barcode_range_count (personOfCount (k, n)) = n"
  by (simp add: personOfCount_def Let_def)

lemma pointwise_of_maps:
  assumes "map f xs = ks" and "map g xs = map h ks"
  shows "\<forall>x\<in>set xs. g x = h (f x)"
proof -
  from assms have "map g xs = map (\<lambda>x. h (f x)) xs" by (auto simp: comp_def)
  then show ?thesis by simp
qed

lemma personOfCount_plain:
  assumes "95 \<notin> set f" and "95 \<notin> set l"
  shows "personOfCount (f @ ustr ''_'' @ l, n) =
         \<lparr>firstname = Some f, lastname = Some l, barcode_range_count = n\<rparr>"
proof -
  have "split 95 (f @ 95 # l) = [f, l]"
    using assms by (simp add: split_at_sep split_no_sep)
  then show ?thesis
    by (simp add: personOfCount_def Let_def uchr_def ustr_def nth_opt_def)
qed

lemma firstname_personOfCount:
  "firstname (personOfCount (k, n)) = Some (takeWhile (\<lambda>x. x \<noteq> 95) k)"
proof -
  obtain rest where "split 95 k = takeWhile (\<lambda>x. x \<noteq> 95) k # rest"
    using split_head [of 95 k] by simp
  then show ?thesis
    by (simp add: personOfCount_def Let_def uchr_def nth_opt_def)
qed

lemma firstname_lossy:
  assumes "95 \<in> set f"
  shows "firstname (personOfCount (f @ ustr ''_'' @ l, n)) \<noteq> Some f"
proof
  assume "firstname (personOfCount (f @ ustr ''_'' @ l, n)) = Some f"
  then have "takeWhile (\<lambda>x. x \<noteq> 95) (f @ ustr ''_'' @ l) = f"
    by (simp add: firstname_personOfCount)
  then have "set f = set (takeWhile (\<lambda>x. x \<noteq> 95) (f @ ustr ''_'' @ l))" by simp
  then have "95 \<in> set (takeWhile (\<lambda>x. x \<noteq> 95) (f @ ustr ''_'' @ l))" using assms by simp
  then show False by (auto dest: set_takeWhileD)
qed

lemma upload_missing:
  assumes "parse (cleanContent content) = Inr pr" and "parse_errors pr = []"
    and "parse_data pr = r # rest"
    and "filter (\<lambda>c. r c = None) requiredColumns_upload \<noteq> []"
  shows "analyzeBarcodes_upload parse now content =
     \<lparr>success = False, data = None,
      error = Some (ustr ''Missing required columns: '' @
                    join (ustr '', '') (filter (\<lambda>c. r c = None) requiredColumns_upload))\<rparr>"
  using assms
  by (simp add: analyzeBarcodes_upload_def analyzeBody_upload_def missingColumns_def failure_def)

lemma default_missing:
  assumes "parse (cleanContent content) = Inr pr" and "parse_errors pr = []"
    and "parse_data pr = r # rest"
    and "filter (\<lambda>c. r c = None) requiredColumns_default \<noteq> []"
  shows "analyzeBarcodes_default parse now content =
     \<lparr>success = False, data = None,
      error = Some (ustr ''Missing required columns: '' @
                    join (ustr '', '') (filter (\<lambda>c. r c = None) requiredColumns_default))\<rparr>"
  using assms
  by (simp add: analyzeBarcodes_default_def analyzeBody_default_def missingColumns_def failure_def)

lemma upload_missing_fails:
  assumes "parse (cleanContent content) = Inr pr" and "parse_data pr = r # rest"
    and "filter (\<lambda>c. r c = None) requiredColumns_upload \<noteq> []"
  shows "\<not> success (analyzeBarcodes_upload parse now content)"
  using assms
  by (simp add: analyzeBarcodes_upload_def analyzeBody_upload_def missingColumns_def failure_def
      split: list.splits)

lemma default_missing_fails:
  assumes "parse (cleanContent content) = Inr pr" and "parse_data pr = r # rest"
    and "filter (\<lambda>c. r c = None) requiredColumns_default \<noteq> []"
  shows "\<not> success (analyzeBarcodes_default parse now content)"
  using assms
  by (simp add: analyzeBarcodes_default_def analyzeBody_default_def missingColumns_def failure_def
      split: list.splits)

lemma default_envelope:
  "(success (analyzeBarcodes_default parse now content) \<and>
      (\<exists>d. data (analyzeBarcodes_default parse now content) = Some d \<and>
           filename d = ustr ''Taskmaster.csv'') \<and>
      error (analyzeBarcodes_default parse now content) = None) \<or>
   (\<not> success (analyzeBarcodes_default parse now content) \<and>
      data (analyzeBarcodes_default parse now content) = None \<and>
      (\<exists>msg. error (analyzeBarcodes_default parse now content) = Some msg))"
  by (auto simp: analyzeBarcodes_default_def analyzeBody_default_def failure_def Let_def
      finishAnalysis_data split: sum.splits list.splits)

lemma GET_envelope:
  "(success (GET rt) \<and> existsSync rt (defaultFilePath rt) \<and>
      (\<exists>d. data (GET rt) = Some d \<and> filename d = ustr ''Taskmaster.csv'') \<and> error (GET rt) = None) \<or>
   (\<not> success (GET rt) \<and> data (GET rt) = None \<and> (\<exists>msg. error (GET rt) = Some msg))"
proof (cases "existsSync rt (defaultFilePath rt)")
  case False
  then show ?thesis by (simp add: GET_def failure_def)
next
  case True
  show ?thesis
  proof (cases "readFileSync rt (defaultFilePath rt)")
    case (Inl e)
    with True show ?thesis by (simp add: GET_def failure_def)
  next
    case (Inr buffer)
    with True have "GET rt = analyzeBarcodes_default (papa_parse rt) (clock rt)
        (toString buffer (detectEncoding buffer))"
      by (simp add: GET_def Let_def)
    then show ?thesis
      using True default_envelope [of "papa_parse rt" "clock rt" "toString buffer (detectEncoding buffer)"]
      by auto
  qed
qed

text \<open>
  Neither route fails once the columns are there, if, in the upload route, every row has
  a time: \<open>calculateWorkPeriods\<close> raises an exception only on a time that is \<open>undefined\<close>.
\<close>

lemma set_insert_by: "set (insert_by cmp x xs) = insert x (set xs)"
  by (induction xs) auto

lemma set_js_sort_any: "set (js_sort cmp xs) = set xs"
  by (induction xs) (simp_all add: js_sort_def set_insert_by)

lemma parse_total: "\<exists>m. parseTimeToMinutes (Some s) = Inr m"
  by (simp add: parseTimeToMinutes_def Let_def)

lemma closePeriod_total:
  assumes "start_time p \<noteq> None" and "end_time p \<noteq> None"
  shows "\<exists>d. closePeriod p = Inr (p\<lparr>duration_hours := d\<rparr>)"
proof -
  from assms obtain s e where se: "start_time p = Some s" "end_time p = Some e" by auto
  from parse_total [of s] parse_total [of e] show ?thesis
    by (auto simp: closePeriod_def se)
qed

lemma periodsLoop_total:
  assumes "prev \<noteq> None" and "\<forall>t\<in>set ts. t \<noteq> None"
    and "start_time cur \<noteq> None" and "end_time cur \<noteq> None"
  shows "\<exists>ps c. periodsLoop prev ts periods cur = Inr (ps, c) \<and>
                 start_time c \<noteq> None \<and> end_time c \<noteq> None"
  using assms
proof (induction ts arbitrary: prev periods cur)
  case Nil
  then show ?case by simp
next
  case (Cons t ts)
  from Cons.prems obtain p' t' where pt: "prev = Some p'" "t = Some t'" by auto
  from parse_total [of p'] parse_total [of t'] obtain a b where
    ab: "parseTimeToMinutes prev = Inr a" "parseTimeToMinutes t = Inr b"
    unfolding pt by blast
  from Cons.prems have ts: "\<forall>t\<in>set ts. t \<noteq> None" and t: "t \<noteq> None" by simp_all
  show ?case
  proof (cases "n_gt (n_sub b a) (Fin 30)")
    case True
    from closePeriod_total [OF Cons.prems(3,4)] obtain d where
      cl: "closePeriod cur = Inr (cur\<lparr>duration_hours := d\<rparr>)" by blast
    from Cons.IH [OF t ts, of "\<lparr>start_time = t, end_time = t, duration_hours = Fin 0, barcode_count = 1\<rparr>"
        "periods @ [cur\<lparr>duration_hours := d\<rparr>]"] t
    show ?thesis by (simp add: ab True cl)
  next
    case False
    from Cons.IH [OF t ts, of "cur\<lparr>end_time := t, barcode_count := barcode_count cur + 1\<rparr>" periods]
      Cons.prems(3) t
    show ?thesis by (simp add: ab False)
  qed
qed

lemma calculateWorkPeriods_total:
  assumes "\<forall>t\<in>set ts. t \<noteq> None"
  shows "\<exists>ps. calculateWorkPeriods ts = Inr ps"
proof (cases "js_sort SortCompare ts")
  case Nil
  then show ?thesis by (simp add: calculateWorkPeriods_def)
next
  case (Cons t0 rest)
  have "set (t0 # rest) = set ts" using set_js_sort_any [of SortCompare ts] Cons by simp
  with assms have t0: "t0 \<noteq> None" and rest: "\<forall>t\<in>set rest. t \<noteq> None" by auto
  from periodsLoop_total [OF t0 rest, of
      "\<lparr>start_time = t0, end_time = t0, duration_hours = Fin 0, barcode_count = 1\<rparr>" "[]"] t0
  obtain ps c where l: "periodsLoop t0 rest []
      \<lparr>start_time = t0, end_time = t0, duration_hours = Fin 0, barcode_count = 1\<rparr> = Inr (ps, c)"
    and c: "start_time c \<noteq> None" "end_time c \<noteq> None" by auto
  from closePeriod_total [OF c] obtain d where "closePeriod c = Inr (c\<lparr>duration_hours := d\<rparr>)"
    by blast
  with l Cons show ?thesis by (simp add: calculateWorkPeriods_def)
qed

lemma personOfEntry_total:
  assumes "\<forall>t\<in>set (timeEntries e). t \<noteq> None"
  shows "\<exists>p. personOfEntry e = Inr p"
proof -
  from calculateWorkPeriods_total [OF assms] obtain ps where
    "calculateWorkPeriods (timeEntries e) = Inr ps" by blast
  then show ?thesis by (simp add: personOfEntry_def Let_def)
qed

lemma map_exn_total: "\<forall>x\<in>set xs. \<exists>y. f x = Inr y \<Longrightarrow> \<exists>ys. map_exn f xs = Inr ys"
proof (induction xs)
  case Nil
  then show ?case by simp
next
  case (Cons x xs)
  then obtain y ys where "f x = Inr y" "map_exn f xs = Inr ys" by auto
  then show ?case by simp
qed

lemma upload_finishes:
  assumes p: "parse (cleanContent content) = Inr pr" and e: "parse_errors pr = []"
    and m: "missingColumns requiredColumns_upload (parse_data pr) = []"
    and t: "\<forall>r\<in>set (parse_data pr). r (ustr ''TimeEntered'') \<noteq> None"
  shows "\<exists>people.
    map_exn personOfEntry (map snd (foldl groupRow_upload [] (parse_data pr))) = Inr people \<and>
    analyzeBarcodes_upload parse now content =
      finishAnalysis (ustr ''uploaded_file.csv'') now people"
proof -
  let ?rows = "parse_data pr"
  have "\<forall>x\<in>set (map snd (foldl groupRow_upload [] ?rows)). \<exists>y. personOfEntry x = Inr y"
  proof
    fix x assume "x \<in> set (map snd (foldl groupRow_upload [] ?rows))"
    then obtain k where x: "x = entryOf ?rows k" by (auto simp: group_upload)
    have "\<forall>t\<in>set (timeEntries x). t \<noteq> None"
      using t by (auto simp: x entryOf_def Let_def)
    then show "\<exists>y. personOfEntry x = Inr y" by (rule personOfEntry_total)
  qed
  from map_exn_total [OF this] obtain people where
    mp: "map_exn personOfEntry (map snd (foldl groupRow_upload [] ?rows)) = Inr people" by blast
  then show ?thesis
    using p e m by (simp add: analyzeBarcodes_upload_def analyzeBody_upload_def)
qed

lemma default_finishes:
  assumes p: "parse (cleanContent content) = Inr pr" and e: "parse_errors pr = []"
    and m: "missingColumns requiredColumns_default (parse_data pr) = []"
  shows "analyzeBarcodes_default parse now content =
      finishAnalysis (ustr ''Taskmaster.csv'') now
        (map personOfCount (foldl groupRow_default [] (parse_data pr)))"
  using p e m by (simp add: analyzeBarcodes_default_def analyzeBody_default_def)







lemma finish_statistics:
  "statisticsOf (finishAnalysis f now people) =
     Some \<lparr>total_people = length people,
           total_ranges = sum_list (map barcode_range_count people),
           average_ranges_per_person =
             round2 (if people = [] then Fin 0
                     else n_div (of_count (sum_list (map barcode_range_count people)))
                            (of_count (length people)))\<rparr>"
  by (simp add: statisticsOf_def finishAnalysis_data)

lemma finish_spec:
  "statisticsSpec (peopleOf (finishAnalysis f now people)) =
     \<lparr>total_people = length people,
      total_ranges = sum_list (map barcode_range_count people),
      average_ranges_per_person =
        (if length people = 0 then Fin 0
         else dbl (of_int \<lfloor>rat_of_nat (sum_list (map barcode_range_count people)) * 100 /
                             of_nat (length people) + 1 / 2\<rfloor> / 100))\<rparr>"
  by (simp add: peopleOf_def finishAnalysis_data statisticsSpec_def hundredths_def sum_js_sort
      length_js_sort)

section \<open>Decoding\<close>

text \<open>A buffer of bytes from 01 to 7F is never taken for UTF-16LE and decodes to itself.\<close>

lemma looksLikeCsv_iff:
  "looksLikeCsv t \<longleftrightarrow> 44 \<in> set t \<or> 9 \<in> set t \<or> (\<exists>u v. t = u @ ustr ''firstname'' @ v)"
  by (simp add: looksLikeCsv_def str_includes_single) (simp add: str_includes_iff)

lemma utf16_high:
  "\<forall>x\<in>set b. x \<noteq> 0 \<Longrightarrow> \<forall>u\<in>set (decode_utf16le b). 256 \<le> u"
proof (induction b rule: decode_utf16le.induct)
  case (1 lo hi bs)
  then have "0 < unat hi" by (simp add: unat_gt_0)
  with 1 show ?case by simp
qed simp_all

lemma not_csv_high:
  assumes "\<forall>u\<in>set t. (256::nat) \<le> u"
  shows "\<not> looksLikeCsv t"
proof
  assume "looksLikeCsv t"
  then consider "44 \<in> set t" | "9 \<in> set t" | "str_includes t (ustr ''firstname'')"
    by (auto simp: looksLikeCsv_def str_includes_single)
  then show False
  proof cases
    case 1 with assms show ?thesis by force
  next
    case 2 with assms show ?thesis by force
  next
    case 3
    then have "set (ustr ''firstname'') \<subseteq> set t" by (rule str_includes_subset)
    then have "102 \<in> set t" by (auto simp: ustr_def)
    with assms show ?thesis by force
  qed
qed

lemma utf8_points_ascii:
  "\<forall>x\<in>set ns. x \<le> 0x7F \<Longrightarrow> utf8_points 0 cp lower upper ns = ns"
  by (induction ns arbitrary: cp lower upper) (simp_all add: Let_def)

lemma concat_units: "\<forall>x\<in>set ns. x < 0x10000 \<Longrightarrow> concat (map utf16_units ns) = ns"
  by (induction ns) (simp_all add: utf16_units_def)

lemma unat_ascii: "(x :: byte) < 0x80 \<Longrightarrow> unat x < 128"
  by (simp add: word_less_nat_alt)

lemma decode_utf8_ascii:
  assumes "\<forall>x\<in>set b. x < 0x80"
  shows "decode_utf8 b = map unat b"
proof -
  have small: "\<forall>n\<in>set (map unat b). n \<le> 0x7F"
    using assms by (auto dest!: unat_ascii bspec)
  then have p: "utf8_points 0 0 0x80 0xBF (map unat b) = map unat b"
    by (rule utf8_points_ascii)
  have "\<forall>n\<in>set (map unat b). n < 0x10000"
    using small by auto
  then have c: "concat (map utf16_units (map unat b)) = map unat b"
    by (rule concat_units)
  show ?thesis
    by (simp only: decode_utf8_def p c)
qed

lemma and_7F: "(x :: byte) < 0x80 \<Longrightarrow> x AND 0x7F = x"
  using less_mask_eq [of x 7] by (simp add: mask_eq_exp_minus_1)

lemma decode_ascii_ascii: "\<forall>x\<in>set b. x < 0x80 \<Longrightarrow> decode_ascii b = map unat b"
  by (simp add: decode_ascii_def and_7F)

lemma firstEncoding_find:
  "firstEncoding b es =
     (case find (\<lambda>e. looksLikeCsv (toString b e)) es of None \<Rightarrow> utf8 | Some e \<Rightarrow> e)"
  by (induction es) simp_all

lemma detect_ascii:
  assumes "\<forall>x\<in>set b. x \<noteq> 0 \<and> x < 0x80"
  shows "detectEncoding b = utf8" and "toString b utf8 = map unat b"
proof -
  have lt: "\<forall>x\<in>set b. x < 0x80" and nz: "\<forall>x\<in>set b. x \<noteq> 0" using assms by auto
  show u8: "toString b utf8 = map unat b"
    using lt by (simp add: toString_def decode_utf8_ascii)
  have l1: "toString b latin1 = map unat b" by (simp add: toString_def decode_latin1_def)
  have as: "toString b ascii = map unat b" using lt by (simp add: toString_def decode_ascii_ascii)
  have u16: "\<not> looksLikeCsv (toString b utf16le)"
    using utf16_high [OF nz] by (simp add: toString_def not_csv_high)
  have first: "firstEncoding b [utf16le, utf8, latin1, ascii] = utf8"
    using u16 by (simp add: u8 l1 as)
  have nobom: "\<not> (2 \<le> length b \<and> b ! 0 = 0xFF \<and> b ! 1 = 0xFE)"
              "\<not> (2 \<le> length b \<and> b ! 0 = 0xFE \<and> b ! 1 = 0xFF)"
  proof -
    have "b ! 0 < 0x80" if "2 \<le> length b"
    proof -
      have "0 < length b" using that by linarith
      then have "b ! 0 \<in> set b" by (rule nth_mem)
      then show ?thesis using lt by blast
    qed
    then show "\<not> (2 \<le> length b \<and> b ! 0 = 0xFF \<and> b ! 1 = 0xFE)"
      "\<not> (2 \<le> length b \<and> b ! 0 = 0xFE \<and> b ! 1 = 0xFF)" by auto
  qed
  show "detectEncoding b = utf8"
    using nobom first by (simp add: detectEncoding_def)
qed

lemma bytes_of_ascii:
  assumes "\<forall>n\<in>set ns. 0 < n \<and> n < 128"
  shows "\<forall>x\<in>set (map word_of_nat ns :: byte list). x \<noteq> 0 \<and> x < 0x80"
    and "map unat (map word_of_nat ns :: byte list) = ns"
proof -
  have u: "unat (word_of_nat n :: byte) = n" if "n \<in> set ns" for n
  proof -
    from that assms have "n < 256" by fastforce
    then show ?thesis by (simp add: unat_of_nat)
  qed
  show "map unat (map word_of_nat ns :: byte list) = ns"
    by (simp add: comp_def u map_idI)
  show "\<forall>x\<in>set (map word_of_nat ns :: byte list). x \<noteq> 0 \<and> x < 0x80"
  proof
    fix x :: byte
    assume "x \<in> set (map word_of_nat ns)"
    then obtain n where n: "n \<in> set ns" and x: "x = word_of_nat n" by auto
    from u [OF n] x have "unat x = n" by simp
    moreover from n assms have "0 < n \<and> n < 128" by blast
    ultimately show "x \<noteq> 0 \<and> x < 0x80"
      by (auto simp: word_less_nat_alt)
  qed
qed

section \<open>The concrete files, evaluated\<close>

lemma scans_parse:
  "tsvParse (cleanContent scansFile) = Inr \<lparr>parse_errors = [], parse_data = scansRows\<rparr>"
  by (simp add: str_defs cleanContent_def scansFile_def header18_def line18_def tsvParse_def
      scansRows_def row18_def)

lemmas route_defs = missingColumns_def requiredColumns_default_def requiredColumns_upload_def
  rowKey_def template_def groupRow_default_def groupRow_upload_def personOfCount_def nth_opt_def
  personOfEntry_def finishAnalysis_def byCountDesc_def round2_def of_count_def failure_def

lemma scans_default:
  "analyzeBarcodes_default tsvParse noon scansFile =
   \<lparr>success = True,
    data = Some \<lparr>people_data =
                   [\<lparr>firstname = Some (ustr ''Ann''), lastname = Some (ustr ''Lee''), barcode_range_count = 2\<rparr>,
                    \<lparr>firstname = Some (ustr ''Bo''), lastname = Some (ustr ''Oz''), barcode_range_count = 2\<rparr>,
                    \<lparr>firstname = Some (ustr ''Cy''), lastname = Some (ustr ''Di''), barcode_range_count = 1\<rparr>],
                 statistics = \<lparr>total_people = 3, total_ranges = 5,
                                average_ranges_per_person = dbl (167 / 100)\<rparr>,
                 filename = ustr ''Taskmaster.csv'', upload_time = noon\<rparr>,
    error = None\<rparr>"
  by (simp add: analyzeBarcodes_default_def analyzeBody_default_def scans_parse scansRows_def
      row18_def route_defs ustr_def uchr_def js_sort_def dbl_defs)

lemma scans_upload:
  "analyzeBarcodes_upload tsvParse noon scansFile =
   \<lparr>success = True,
    data = Some \<lparr>people_data =
      [\<lparr>firstname = Some (ustr ''Ann''), lastname = Some (ustr ''Lee''), barcode_range_count = 2,
         total_hours_worked = Fin 0, barcodes_per_hour = Fin 480,
         work_periods =
           [\<lparr>start_time = Some (ustr ''09:00:00.000''), end_time = Some (ustr ''09:00:15.000''),
              duration_hours = dbl (1 / 240), barcode_count = 2\<rparr>]\<rparr>,
       \<lparr>firstname = Some (ustr ''Bo''), lastname = Some (ustr ''Oz''), barcode_range_count = 2,
         total_hours_worked = Fin 0, barcodes_per_hour = Fin 0,
         work_periods =
           [\<lparr>start_time = Some (ustr ''10:00:00.000''), end_time = Some (ustr ''10:00:00.000''),
              duration_hours = Fin 0, barcode_count = 1\<rparr>,
            \<lparr>start_time = Some (ustr ''11:00:00.000''), end_time = Some (ustr ''11:00:00.000''),
              duration_hours = Fin 0, barcode_count = 1\<rparr>]\<rparr>,
       \<lparr>firstname = Some (ustr ''Cy_Di''), lastname = Some (ustr ''Ek''), barcode_range_count = 1,
         total_hours_worked = Fin 0, barcodes_per_hour = Fin 0,
         work_periods =
           [\<lparr>start_time = Some (ustr ''10:30:00.000''), end_time = Some (ustr ''10:30:00.000''),
              duration_hours = Fin 0, barcode_count = 1\<rparr>]\<rparr>],
      statistics = \<lparr>total_people = 3, total_ranges = 5,
                     average_ranges_per_person = dbl (167 / 100)\<rparr>,
      filename = ustr ''uploaded_file.csv'', upload_time = noon\<rparr>,
    error = None\<rparr>"
  by (simp add: analyzeBarcodes_upload_def analyzeBody_upload_def scans_parse scansRows_def
      row18_def route_defs str_defs num_defs period_defs dbl_defs)

lemma scans_default_ok: "success (analyzeBarcodes_default tsvParse noon scansFile)"
  by (simp add: scans_default)

lemma scans_upload_ok: "success (analyzeBarcodes_upload tsvParse noon scansFile)"
  by (simp add: scans_upload)

lemma scans_names:
  "map (\<lambda>r. (r (ustr ''firstname''), r (ustr ''lastname''))) scansRows =
     [(Some (ustr ''Ann''), Some (ustr ''Lee'')), (Some (ustr ''Bo''), Some (ustr ''Oz'')),
      (Some (ustr ''Cy_Di''), Some (ustr ''Ek'')), (Some (ustr ''Ann''), Some (ustr ''Lee'')),
      (Some (ustr ''Bo''), Some (ustr ''Oz''))]"
  by (simp add: scansRows_def row18_def ustr_def)

lemma scans_default_names:
  "map (\<lambda>p. (firstname p, lastname p)) (peopleOf (analyzeBarcodes_default tsvParse noon scansFile)) =
     [(Some (ustr ''Ann''), Some (ustr ''Lee'')), (Some (ustr ''Bo''), Some (ustr ''Oz'')),
      (Some (ustr ''Cy''), Some (ustr ''Di''))]"
  by (simp add: scans_default peopleOf_def)

lemma nolast_parse:
  "tsvParse (cleanContent noLastnameFile) =
     Inr \<lparr>parse_errors = [],
          parse_data = [row18 [''firstname'', ''surname'', ''BarcodeRangeID'', ''TimeEntered'']
                          ''Ann'' ''Lee'' ''1'' ''09:00:00.000'']\<rparr>"
  by (simp add: str_defs cleanContent_def noLastnameFile_def header18_def line18_def tsvParse_def
      row18_def)

lemma nolast_missing:
  "filter (\<lambda>c. row18 [''firstname'', ''surname'', ''BarcodeRangeID'', ''TimeEntered'']
                  ''Ann'' ''Lee'' ''1'' ''09:00:00.000'' c = None) requiredColumns_upload =
     [ustr ''lastname''] \<and>
   filter (\<lambda>c. row18 [''firstname'', ''surname'', ''BarcodeRangeID'', ''TimeEntered'']
                  ''Ann'' ''Lee'' ''1'' ''09:00:00.000'' c = None) requiredColumns_default =
     [ustr ''lastname'']"
  by (simp add: requiredColumns_upload_def requiredColumns_default_def row18_def ustr_def)

lemma scansFile_ascii: "\<forall>n\<in>set scansFile. 0 < n \<and> n < 128"
  by (simp add: scansFile_def header18_def line18_def ustr_def)

lemma bundled_path: "defaultFilePath bundledRuntime = ustr ''/app/public/data/Taskmaster.csv''"
  by (simp add: defaultFilePath_def bundledRuntime_def noFileRuntime_def ustr_def)

lemma GET_bundled: "GET bundledRuntime = analyzeBarcodes_default tsvParse noon scansFile"
proof -
  note b = bytes_of_ascii [OF scansFile_ascii]
  have "detectEncoding scansBytes = utf8" and "toString scansBytes utf8 = scansFile"
    using detect_ascii [of scansBytes] b by (simp_all add: scansBytes_def)
  then show ?thesis
    by (simp add: GET_def bundled_path Let_def) (simp add: bundledRuntime_def noFileRuntime_def)
qed

lemma tie_plain:
  "\<forall>fs\<in>set (hd tieTable # tl tieTable). length fs = 18 \<and> (\<forall>f\<in>set fs. plainField f)"
  by (simp add: tieTable_def plainField_def ustr_def isWhiteSpace_def)

lemma tie_table: "join [10] (map (join [9]) (hd tieTable # tl tieTable)) = tieFile"
  by (simp add: tieFile_def tieTable_def del: join.simps)

lemma tie_parse:
  "tsvParse (cleanContent tieFile) = Inr \<lparr>parse_errors = [], parse_data = tieRows\<rparr>"
  using tsvParse_table [OF tie_plain] unfolding tie_table by (simp add: tieRows_def)

lemma tie_keys: "length (firstSeen (map rowKey tieRows)) = 40 \<and> length tieRows = 41"
  by (simp add: tieRows_def tieTable_def firstSeen_def rowKey_def template_def ustr_def)

lemma tie_missing: "missingColumns requiredColumns_default tieRows = [] \<and>
  missingColumns requiredColumns_upload tieRows = []"
  by (simp add: tieRows_def tieTable_def missingColumns_def requiredColumns_default_def
      requiredColumns_upload_def ustr_def)


lemma tie_times: "\<forall>r\<in>set tieRows. r (ustr ''TimeEntered'') \<noteq> None"
  by (simp add: tieRows_def tieTable_def ustr_def)

lemma tie_round: "round2 (n_div (of_count 41) (of_count 40)) = Fin (2296835809958953 / 2 ^ 51)"
  by (simp add: round2_def of_count_def dbl_defs)

lemma tie_spec: "dbl (of_int \<lfloor>rat_of_nat 41 * 100 / of_nat 40 + 1 / 2\<rfloor> / 100) = Fin (4638707616191611 / 2 ^ 52)"
  by (simp add: dbl_defs)

lemma tie_default:
  "success (analyzeBarcodes_default tsvParse noon tieFile) \<and>
   statisticsOf (analyzeBarcodes_default tsvParse noon tieFile) =
     Some \<lparr>total_people = 40, total_ranges = 41,
           average_ranges_per_person = Fin (2296835809958953 / 2 ^ 51)\<rparr> \<and>
   statisticsSpec (peopleOf (analyzeBarcodes_default tsvParse noon tieFile)) =
     \<lparr>total_people = 40, total_ranges = 41,
      average_ranges_per_person = Fin (4638707616191611 / 2 ^ 52)\<rparr>"
proof -
  let ?people = "map personOfCount (foldl groupRow_default [] tieRows)"
  have r: "analyzeBarcodes_default tsvParse noon tieFile =
      finishAnalysis (ustr ''Taskmaster.csv'') noon ?people"
    using default_finishes [of tsvParse tieFile "\<lparr>parse_errors = [], parse_data = tieRows\<rparr>" noon]
      tie_parse tie_missing by simp
  have n: "length ?people = 40" using tie_keys by (simp add: group_default)
  have a: "sum_list (map barcode_range_count ?people) = 41"
    using sum_countKey [of tieRows] tie_keys by (simp add: group_default comp_def)
  have ne: "?people \<noteq> []" using n by auto
  show ?thesis
    unfolding r finish_statistics finish_spec n a using ne tie_round tie_spec
    by (simp add: finishAnalysis_data)
qed


lemma tie_upload:
  "success (analyzeBarcodes_upload tsvParse noon tieFile) \<and>
   statisticsOf (analyzeBarcodes_upload tsvParse noon tieFile) =
     Some \<lparr>total_people = 40, total_ranges = 41,
           average_ranges_per_person = Fin (2296835809958953 / 2 ^ 51)\<rparr> \<and>
   statisticsSpec (peopleOf (analyzeBarcodes_upload tsvParse noon tieFile)) =
     \<lparr>total_people = 40, total_ranges = 41,
      average_ranges_per_person = Fin (4638707616191611 / 2 ^ 52)\<rparr>"
proof -
  from upload_finishes [of tsvParse tieFile "\<lparr>parse_errors = [], parse_data = tieRows\<rparr>" noon]
    tie_parse tie_missing tie_times
  obtain people where
    m: "map_exn personOfEntry (map snd (foldl groupRow_upload [] tieRows)) = Inr people"
    and r: "analyzeBarcodes_upload tsvParse noon tieFile =
      finishAnalysis (ustr ''uploaded_file.csv'') noon people"
    by auto
  note u = upload_people [OF m]
  have "length people = length (map personKey people)" by simp
  also have "\<dots> = 40" unfolding u using tie_keys by simp
  finally have n: "length people = 40" .
  have a: "sum_list (map barcode_range_count people) = 41"
    using sum_countKey [of tieRows] tie_keys by (simp add: u)
  have ne: "people \<noteq> []" using n by auto
  show ?thesis
    unfolding r finish_statistics finish_spec n a using ne tie_round tie_spec
    by (simp add: finishAnalysis_data)
qed

section \<open>Work-period reconstruction\<close>

text \<open>
  C1.  For one person with the timestamps 09:00:00.000, 09:10:00.000 and 09:50:00.000,
  \<open>calculateWorkPeriods\<close> returns exactly two periods: 09:00:00 to 09:10:00 with two scans
  and a duration of one sixth of an hour, as a double (0.1667 to four decimals), and
  09:50:00 to 09:50:00 with one scan and duration 0.  The timestamps parse to 540, 550
  and 590 minutes, and the gap of 40 minutes between the last two exceeds 30.  In general
  the duration of every returned period is (end minutes - start minutes) / 60; a
  timestamp of three groups of digits parses to hours * 60 + minutes + seconds / 60 in
  the arithmetic of doubles, whatever follows the first dot, and for groups of at most
  five digits the whole minutes hours * 60 + minutes are exact; and only the part of a
  timestamp before its first dot is read.
\<close>

theorem calculateWorkPeriods_example:
  "calculateWorkPeriods
     [Some (ustr ''09:00:00.000''), Some (ustr ''09:10:00.000''), Some (ustr ''09:50:00.000'')] =
   Inr [\<lparr>start_time = Some (ustr ''09:00:00.000''), end_time = Some (ustr ''09:10:00.000''),
          duration_hours = dbl (1 / 6), barcode_count = 2\<rparr>,
        \<lparr>start_time = Some (ustr ''09:50:00.000''), end_time = Some (ustr ''09:50:00.000''),
          duration_hours = Fin 0, barcode_count = 1\<rparr>] \<and>
   dbl (1 / 6) = Fin (6004799503160661 / 2 ^ 55) \<and>
   n_div (Math_round (n_mul (dbl (1 / 6)) (Fin 10000))) (Fin 10000) = dbl (1667 / 10000) \<and>
   parseTimeToMinutes (Some (ustr ''09:00:00.000'')) = Inr (Fin 540) \<and>
   parseTimeToMinutes (Some (ustr ''09:10:00.000'')) = Inr (Fin 550) \<and>
   parseTimeToMinutes (Some (ustr ''09:50:00.000'')) = Inr (Fin 590) \<and>
   n_sub (Fin 590) (Fin 550) = Fin 40 \<and> n_gt (Fin 40) (Fin 30) \<and>
   (calculateWorkPeriods ts = Inr ps \<longrightarrow>
      list_all (\<lambda>p. \<exists>s e. parseTimeToMinutes (start_time p) = Inr s \<and>
                          parseTimeToMinutes (end_time p) = Inr e \<and>
                          duration_hours p = n_div (n_sub e s) (Fin 60)) ps) \<and>
   (hh \<noteq> [] \<and> mm \<noteq> [] \<and> ss \<noteq> [] \<and>
    list_all isDigit hh \<and> list_all isDigit mm \<and> list_all isDigit ss \<longrightarrow>
      parseTimeToMinutes (Some (hh @ ustr '':'' @ mm @ ustr '':'' @ ss @ ustr ''.'' @ ms)) =
        Inr (n_add (n_add (n_mul (dbl (of_nat (digitsValue 10 hh))) (Fin 60))
                          (dbl (of_nat (digitsValue 10 mm))))
                   (n_div (dbl (of_nat (digitsValue 10 ss))) (Fin 60))) \<and>
      (digitsValue 10 hh < 100000 \<and> digitsValue 10 mm < 100000 \<and> digitsValue 10 ss < 100000 \<longrightarrow>
         parseTimeToMinutes (Some (hh @ ustr '':'' @ mm @ ustr '':'' @ ss @ ustr ''.'' @ ms)) =
           Inr (n_add (Fin (of_nat (digitsValue 10 hh * 60 + digitsValue 10 mm)))
                      (dbl (of_nat (digitsValue 10 ss) / 60))))) \<and>
   parseTimeToMinutes (Some s) =
     parseTimeToMinutes (Some (takeWhile (\<lambda>c. c \<noteq> uchr CHR ''.'') s))"
proof -
  have periods: "calculateWorkPeriods
     [Some (ustr ''09:00:00.000''), Some (ustr ''09:10:00.000''), Some (ustr ''09:50:00.000'')] =
   Inr [\<lparr>start_time = Some (ustr ''09:00:00.000''), end_time = Some (ustr ''09:10:00.000''),
          duration_hours = dbl (1 / 6), barcode_count = 2\<rparr>,
        \<lparr>start_time = Some (ustr ''09:50:00.000''), end_time = Some (ustr ''09:50:00.000''),
          duration_hours = Fin 0, barcode_count = 1\<rparr>]"
    by (simp add: str_defs num_defs period_defs dbl_defs)
  have sixth: "dbl (1 / 6) = Fin (6004799503160661 / 2 ^ 55)"
    by (simp add: dbl_defs)
  have four: "n_div (Math_round (n_mul (dbl (1 / 6)) (Fin 10000))) (Fin 10000) = dbl (1667 / 10000)"
    by (simp add: dbl_defs)
  have p0: "parseTimeToMinutes (Some (ustr ''09:00:00.000'')) = Inr (Fin 540)"
    by (simp add: str_defs num_defs period_defs dbl_defs)
  have p1: "parseTimeToMinutes (Some (ustr ''09:10:00.000'')) = Inr (Fin 550)"
    by (simp add: str_defs num_defs period_defs dbl_defs)
  have p2: "parseTimeToMinutes (Some (ustr ''09:50:00.000'')) = Inr (Fin 590)"
    by (simp add: str_defs num_defs period_defs dbl_defs)
  have gap: "n_sub (Fin 590) (Fin 550) = Fin 40 \<and> n_gt (Fin 40) (Fin 30)"
    by (simp add: n_sub_def dbl_defs)
  have dur: "calculateWorkPeriods ts = Inr ps \<longrightarrow>
      list_all (\<lambda>p. \<exists>s e. parseTimeToMinutes (start_time p) = Inr s \<and>
                          parseTimeToMinutes (end_time p) = Inr e \<and>
                          duration_hours p = n_div (n_sub e s) (Fin 60)) ps"
    using calculateWorkPeriods_durations [of ts ps]
    by (simp add: durationFromEnds_def [abs_def])
  have clock: "hh \<noteq> [] \<and> mm \<noteq> [] \<and> ss \<noteq> [] \<and>
    list_all isDigit hh \<and> list_all isDigit mm \<and> list_all isDigit ss \<longrightarrow>
      parseTimeToMinutes (Some (hh @ ustr '':'' @ mm @ ustr '':'' @ ss @ ustr ''.'' @ ms)) =
        Inr (n_add (n_add (n_mul (dbl (of_nat (digitsValue 10 hh))) (Fin 60))
                          (dbl (of_nat (digitsValue 10 mm))))
                   (n_div (dbl (of_nat (digitsValue 10 ss))) (Fin 60))) \<and>
      (digitsValue 10 hh < 100000 \<and> digitsValue 10 mm < 100000 \<and> digitsValue 10 ss < 100000 \<longrightarrow>
         parseTimeToMinutes (Some (hh @ ustr '':'' @ mm @ ustr '':'' @ ss @ ustr ''.'' @ ms)) =
           Inr (n_add (Fin (of_nat (digitsValue 10 hh * 60 + digitsValue 10 mm)))
                      (dbl (of_nat (digitsValue 10 ss) / 60))))"
  proof (intro impI conjI)
    assume a: "hh \<noteq> [] \<and> mm \<noteq> [] \<and> ss \<noteq> [] \<and>
      list_all isDigit hh \<and> list_all isDigit mm \<and> list_all isDigit ss"
    then show js: "parseTimeToMinutes (Some (hh @ ustr '':'' @ mm @ ustr '':'' @ ss @ ustr ''.'' @ ms)) =
        Inr (n_add (n_add (n_mul (dbl (of_nat (digitsValue 10 hh))) (Fin 60))
                          (dbl (of_nat (digitsValue 10 mm))))
                   (n_div (dbl (of_nat (digitsValue 10 ss))) (Fin 60)))"
      using parse_clock_time [of hh mm ss ms] by blast
    assume "digitsValue 10 hh < 100000 \<and> digitsValue 10 mm < 100000 \<and> digitsValue 10 ss < 100000"
    then have "n_add (n_add (n_mul (dbl (of_nat (digitsValue 10 hh))) (Fin 60))
                          (dbl (of_nat (digitsValue 10 mm))))
                   (n_div (dbl (of_nat (digitsValue 10 ss))) (Fin 60)) =
               n_add (Fin (of_nat (digitsValue 10 hh * 60 + digitsValue 10 mm)))
                     (dbl (of_nat (digitsValue 10 ss) / 60))"
      by (intro clock_minutes_exact) simp_all
    with js show "parseTimeToMinutes (Some (hh @ ustr '':'' @ mm @ ustr '':'' @ ss @ ustr ''.'' @ ms)) =
           Inr (n_add (Fin (of_nat (digitsValue 10 hh * 60 + digitsValue 10 mm)))
                      (dbl (of_nat (digitsValue 10 ss) / 60)))"
      by simp
  qed
  have dot: "parseTimeToMinutes (Some s) =
     parseTimeToMinutes (Some (takeWhile (\<lambda>c. c \<noteq> uchr CHR ''.'') s))"
    using parse_ignores_fraction [of s] by (simp add: uchr_def)
  from periods sixth four p0 p1 p2 gap dur clock dot show ?thesis by blast
qed

theorem calculateWorkPeriods_example_witness:
  "calculateWorkPeriods
     [Some (ustr ''09:00:00.000''), Some (ustr ''09:10:00.000''), Some (ustr ''09:50:00.000'')] =
   Inr [\<lparr>start_time = Some (ustr ''09:00:00.000''), end_time = Some (ustr ''09:10:00.000''),
          duration_hours = dbl (1 / 6), barcode_count = 2\<rparr>,
        \<lparr>start_time = Some (ustr ''09:50:00.000''), end_time = Some (ustr ''09:50:00.000''),
          duration_hours = Fin 0, barcode_count = 1\<rparr>] \<and>
   list_all (\<lambda>p. \<exists>s e. parseTimeToMinutes (start_time p) = Inr s \<and>
                       parseTimeToMinutes (end_time p) = Inr e \<and>
                       duration_hours p = n_div (n_sub e s) (Fin 60))
     [\<lparr>start_time = Some (ustr ''09:00:00.000''), end_time = Some (ustr ''09:10:00.000''),
       duration_hours = dbl (1 / 6), barcode_count = 2\<rparr>,
      \<lparr>start_time = Some (ustr ''09:50:00.000''), end_time = Some (ustr ''09:50:00.000''),
       duration_hours = Fin 0, barcode_count = 1\<rparr>] \<and>
   ustr ''09'' \<noteq> [] \<and> ustr ''10'' \<noteq> [] \<and> ustr ''20'' \<noteq> [] \<and>
   list_all isDigit (ustr ''09'') \<and> list_all isDigit (ustr ''10'') \<and> list_all isDigit (ustr ''20'') \<and>
   digitsValue 10 (ustr ''09'') = 9 \<and> digitsValue 10 (ustr ''10'') = 10 \<and>
   digitsValue 10 (ustr ''20'') = 20 \<and>
   parseTimeToMinutes
     (Some (ustr ''09'' @ ustr '':'' @ ustr ''10'' @ ustr '':'' @ ustr ''20'' @ ustr ''.'' @ ustr ''000'')) =
     Inr (n_add (n_add (n_mul (dbl (of_nat (digitsValue 10 (ustr ''09'')))) (Fin 60))
                       (dbl (of_nat (digitsValue 10 (ustr ''10'')))))
                (n_div (dbl (of_nat (digitsValue 10 (ustr ''20'')))) (Fin 60))) \<and>
   parseTimeToMinutes
     (Some (ustr ''09'' @ ustr '':'' @ ustr ''10'' @ ustr '':'' @ ustr ''20'' @ ustr ''.'' @ ustr ''000'')) =
     Inr (n_add (Fin (of_nat (digitsValue 10 (ustr ''09'') * 60 + digitsValue 10 (ustr ''10''))))
                (dbl (of_nat (digitsValue 10 (ustr ''20'')) / 60))) \<and>
   n_add (Fin 550) (dbl (20 / 60)) = Fin (4840783193221803 / 2 ^ 43)"
  (is "?E \<and> ?D \<and> ?N1 \<and> ?N2 \<and> ?N3 \<and> ?G1 \<and> ?G2 \<and> ?G3 \<and> ?V1 \<and> ?V2 \<and> ?V3 \<and> ?P \<and> ?Q \<and> ?R")
proof -
  let ?ts = "[Some (ustr ''09:00:00.000''), Some (ustr ''09:10:00.000''), Some (ustr ''09:50:00.000'')]"
  let ?ps = "[\<lparr>start_time = Some (ustr ''09:00:00.000''), end_time = Some (ustr ''09:10:00.000''),
       duration_hours = dbl (1 / 6), barcode_count = 2\<rparr>,
      \<lparr>start_time = Some (ustr ''09:50:00.000''), end_time = Some (ustr ''09:50:00.000''),
       duration_hours = Fin 0, barcode_count = 1\<rparr>]"
  note inst = calculateWorkPeriods_example [of ?ts ?ps "ustr ''09''" "ustr ''10''" "ustr ''20''" "ustr ''000''"]
  from inst have e: ?E by (rule conjunct1)
  from inst e have d: ?D by blast
  have n: "?N1 \<and> ?N2 \<and> ?N3" by (simp add: ustr_def)
  have g: "?G1 \<and> ?G2 \<and> ?G3" by (simp add: ustr_def isDigit_def)
  have v: "?V1 \<and> ?V2 \<and> ?V3" by (simp add: ustr_def digitsValue_def digitOf_def)
  from inst n g have p: ?P by blast
  from v have "digitsValue 10 (ustr ''09'') < 100000 \<and> digitsValue 10 (ustr ''10'') < 100000 \<and>
    digitsValue 10 (ustr ''20'') < 100000" by simp
  with inst n g have q: ?Q by blast
  have r: ?R by (simp add: dbl_defs)
  from e d n g v p q r show ?thesis by blast
qed

section \<open>Statistics\<close>



text \<open>
  The forty-one scans of forty people in \<open>tieFile\<close> average 1.025.  Rounded to two
  decimals, a half going up, that is 1.03; both routes return the double 1.02, because
  the double nearest to 41/40 lies below it and its hundredfold rounds to
  102.49999999999999.
\<close>

theorem statistics_consistent_counterexample:
  "success (analyzeBarcodes_upload tsvParse noon tieFile) \<and>
   statisticsOf (analyzeBarcodes_upload tsvParse noon tieFile) =
     Some \<lparr>total_people = 40, total_ranges = 41,
           average_ranges_per_person = Fin (2296835809958953 / 2 ^ 51)\<rparr> \<and>
   statisticsSpec (peopleOf (analyzeBarcodes_upload tsvParse noon tieFile)) =
     \<lparr>total_people = 40, total_ranges = 41,
      average_ranges_per_person = Fin (4638707616191611 / 2 ^ 52)\<rparr> \<and>
   statisticsOf (analyzeBarcodes_upload tsvParse noon tieFile) \<noteq>
     Some (statisticsSpec (peopleOf (analyzeBarcodes_upload tsvParse noon tieFile))) \<and>
   success (analyzeBarcodes_default tsvParse noon tieFile) \<and>
   statisticsOf (analyzeBarcodes_default tsvParse noon tieFile) =
     Some \<lparr>total_people = 40, total_ranges = 41,
           average_ranges_per_person = Fin (2296835809958953 / 2 ^ 51)\<rparr> \<and>
   statisticsSpec (peopleOf (analyzeBarcodes_default tsvParse noon tieFile)) =
     \<lparr>total_people = 40, total_ranges = 41,
      average_ranges_per_person = Fin (4638707616191611 / 2 ^ 52)\<rparr> \<and>
   statisticsOf (analyzeBarcodes_default tsvParse noon tieFile) \<noteq>
     Some (statisticsSpec (peopleOf (analyzeBarcodes_default tsvParse noon tieFile))) \<and>
   dbl (102 / 100) = Fin (2296835809958953 / 2 ^ 51) \<and>
   dbl (103 / 100) = Fin (4638707616191611 / 2 ^ 52) \<and>
   n_mul (dbl (41 / 40)) (Fin 100) = Fin (7212796278210559 / 2 ^ 46) \<and>
   (7212796278210559 / 2 ^ 46 :: rat) < 205 / 2"
proof -
  have d: "dbl (102 / 100) = Fin (2296835809958953 / 2 ^ 51) \<and>
      dbl (103 / 100) = Fin (4638707616191611 / 2 ^ 52) \<and>
      n_mul (dbl (41 / 40)) (Fin 100) = Fin (7212796278210559 / 2 ^ 46) \<and>
      (7212796278210559 / 2 ^ 46 :: rat) < 205 / 2"
    by (simp add: dbl_defs)
  from tie_upload tie_default d show ?thesis by simp
qed

section \<open>Ordering of the people\<close>

text \<open>
  C3.  In every successful result of either route, the count of each entry of
  \<open>people_data\<close> is at least that of the next one, and the entries of any one count
  stand in the order in which the grouping pass first met their keys: in the upload route
  they are those of a list whose keys are the row keys in order of first occurrence, in
  the default route those of the list made from these keys and their numbers of rows.
\<close>

theorem people_sorted_stable:
  "(success (analyzeBarcodes_upload parse now content) \<and> parse (cleanContent content) = Inr pr \<longrightarrow>
      (\<exists>d unsorted.
          data (analyzeBarcodes_upload parse now content) = Some d \<and>
          (\<forall>i. Suc i < length (people_data d) \<longrightarrow>
               barcode_range_count (people_data d ! Suc i) \<le> barcode_range_count (people_data d ! i)) \<and>
          map personKey unsorted = firstSeen (map rowKey (parse_data pr)) \<and>
          (\<forall>n. filter (\<lambda>p. barcode_range_count p = n) (people_data d) =
               filter (\<lambda>p. barcode_range_count p = n) unsorted))) \<and>
   (success (analyzeBarcodes_default parse now content) \<and> parse (cleanContent content) = Inr pr \<longrightarrow>
      (\<exists>d.
          data (analyzeBarcodes_default parse now content) = Some d \<and>
          (\<forall>i. Suc i < length (people_data d) \<longrightarrow>
               barcode_range_count (people_data d ! Suc i) \<le> barcode_range_count (people_data d ! i)) \<and>
          (\<forall>n. filter (\<lambda>p. barcode_range_count p = n) (people_data d) =
               filter (\<lambda>p. barcode_range_count p = n)
                 (map (\<lambda>k. personOfCount (k, countKey (parse_data pr) k))
                    (firstSeen (map rowKey (parse_data pr)))))))"
proof (intro conjI impI)
  assume a: "success (analyzeBarcodes_upload parse now content) \<and> parse (cleanContent content) = Inr pr"
  from upload_result [of parse now content pr] a obtain people st where
    k: "map personKey people = firstSeen (map rowKey (parse_data pr))"
    and d: "data (analyzeBarcodes_upload parse now content) =
      Some \<lparr>people_data = js_sort byCountDesc people, statistics = st,
            filename = ustr ''uploaded_file.csv'', upload_time = now\<rparr>"
    by auto
  show "\<exists>d unsorted.
          data (analyzeBarcodes_upload parse now content) = Some d \<and>
          (\<forall>i. Suc i < length (people_data d) \<longrightarrow>
               barcode_range_count (people_data d ! Suc i) \<le> barcode_range_count (people_data d ! i)) \<and>
          map personKey unsorted = firstSeen (map rowKey (parse_data pr)) \<and>
          (\<forall>n. filter (\<lambda>p. barcode_range_count p = n) (people_data d) =
               filter (\<lambda>p. barcode_range_count p = n) unsorted)"
    using d k by (auto simp: adjacent_js_sort stable_js_sort)
next
  assume a: "success (analyzeBarcodes_default parse now content) \<and> parse (cleanContent content) = Inr pr"
  show "\<exists>d.
          data (analyzeBarcodes_default parse now content) = Some d \<and>
          (\<forall>i. Suc i < length (people_data d) \<longrightarrow>
               barcode_range_count (people_data d ! Suc i) \<le> barcode_range_count (people_data d ! i)) \<and>
          (\<forall>n. filter (\<lambda>p. barcode_range_count p = n) (people_data d) =
               filter (\<lambda>p. barcode_range_count p = n)
                 (map (\<lambda>k. personOfCount (k, countKey (parse_data pr) k))
                    (firstSeen (map rowKey (parse_data pr)))))"
    using default_result [of parse now content pr] a
    by (auto simp: adjacent_js_sort stable_js_sort)
qed

theorem people_sorted_stable_witness:
  "success (analyzeBarcodes_upload tsvParse noon scansFile) \<and>
   success (analyzeBarcodes_default tsvParse noon scansFile) \<and>
   tsvParse (cleanContent scansFile) = Inr \<lparr>parse_errors = [], parse_data = scansRows\<rparr> \<and>
   (\<exists>d unsorted.
       data (analyzeBarcodes_upload tsvParse noon scansFile) = Some d \<and>
       (\<forall>i. Suc i < length (people_data d) \<longrightarrow>
            barcode_range_count (people_data d ! Suc i) \<le> barcode_range_count (people_data d ! i)) \<and>
       map personKey unsorted = firstSeen (map rowKey scansRows) \<and>
       (\<forall>n. filter (\<lambda>p. barcode_range_count p = n) (people_data d) =
            filter (\<lambda>p. barcode_range_count p = n) unsorted)) \<and>
   (\<exists>d.
       data (analyzeBarcodes_default tsvParse noon scansFile) = Some d \<and>
       (\<forall>i. Suc i < length (people_data d) \<longrightarrow>
            barcode_range_count (people_data d ! Suc i) \<le> barcode_range_count (people_data d ! i)) \<and>
       (\<forall>n. filter (\<lambda>p. barcode_range_count p = n) (people_data d) =
            filter (\<lambda>p. barcode_range_count p = n)
              (map (\<lambda>k. personOfCount (k, countKey scansRows k))
                 (firstSeen (map rowKey scansRows)))))"
  (is "?A1 \<and> ?A2 \<and> ?P \<and> ?B1 \<and> ?B2")
proof -
  have a1: ?A1 by (rule scans_upload_ok)
  have a2: ?A2 by (rule scans_default_ok)
  have p: ?P by (rule scans_parse)
  note inst = people_sorted_stable [of tsvParse noon scansFile
      "\<lparr>parse_errors = [], parse_data = scansRows\<rparr>"]
  from inst a1 p have b1: ?B1 by simp
  from inst a2 p have b2: ?B2 by simp
  from a1 a2 p b1 b2 show ?thesis by (intro conjI)
qed

section \<open>Counts per person\<close>

text \<open>
  C5.  In every successful result the count of a person is the number of parsed rows
  with that person's key.  In the upload route the key of a person is
  \<open>firstname_lastname\<close> of the returned names; the keys of the people are distinct and
  are exactly the keys of the rows.  In the default route the people are made, one per
  key in order of first occurrence, from the key and its number of rows, and then
  sorted.  In both, the counts add up to the number of rows: no row is dropped or
  counted twice.
\<close>

theorem counts_match_rows:
  "(success (analyzeBarcodes_upload parse now content) \<and> parse (cleanContent content) = Inr pr \<longrightarrow>
      (\<exists>d. data (analyzeBarcodes_upload parse now content) = Some d \<and>
           (\<forall>p\<in>set (people_data d).
               barcode_range_count p = length (filter (\<lambda>r. rowKey r = personKey p) (parse_data pr))) \<and>
           distinct (map personKey (people_data d)) \<and>
           set (map personKey (people_data d)) = set (map rowKey (parse_data pr)) \<and>
           sum_list (map barcode_range_count (people_data d)) = length (parse_data pr))) \<and>
   (success (analyzeBarcodes_default parse now content) \<and> parse (cleanContent content) = Inr pr \<longrightarrow>
      (\<exists>d. data (analyzeBarcodes_default parse now content) = Some d \<and>
           people_data d =
             js_sort byCountDesc
               (map (\<lambda>k. personOfCount (k, length (filter (\<lambda>r. rowKey r = k) (parse_data pr))))
                  (firstSeen (map rowKey (parse_data pr)))) \<and>
           sum_list (map barcode_range_count (people_data d)) = length (parse_data pr)))"
proof (intro conjI impI)
  let ?rows = "parse_data pr"
  let ?ks = "firstSeen (map rowKey ?rows)"
  assume a: "success (analyzeBarcodes_upload parse now content) \<and> parse (cleanContent content) = Inr pr"
  from upload_result [of parse now content pr] a obtain people st where
    k: "map personKey people = ?ks"
    and c: "map barcode_range_count people = map (countKey ?rows) ?ks"
    and d: "data (analyzeBarcodes_upload parse now content) =
      Some \<lparr>people_data = js_sort byCountDesc people, statistics = st,
            filename = ustr ''uploaded_file.csv'', upload_time = now\<rparr>"
    by auto
  have pw: "\<forall>p\<in>set (js_sort byCountDesc people).
      barcode_range_count p = length (filter (\<lambda>r. rowKey r = personKey p) ?rows)"
    using pointwise_of_maps [OF k c] by (simp add: set_js_sort countKey_def)
  have dis: "distinct (map personKey (js_sort byCountDesc people))"
    using k by (simp add: distinct_js_sort)
  have keys: "set (map personKey (js_sort byCountDesc people)) = set (map rowKey ?rows)"
  proof -
    have "set (map personKey (js_sort byCountDesc people)) = set (map personKey people)"
      by (simp add: set_js_sort)
    then show ?thesis using k by simp
  qed
  have total: "sum_list (map barcode_range_count (js_sort byCountDesc people)) = length ?rows"
    using c by (simp add: sum_js_sort sum_countKey)
  show "\<exists>d. data (analyzeBarcodes_upload parse now content) = Some d \<and>
           (\<forall>p\<in>set (people_data d).
               barcode_range_count p = length (filter (\<lambda>r. rowKey r = personKey p) (parse_data pr))) \<and>
           distinct (map personKey (people_data d)) \<and>
           set (map personKey (people_data d)) = set (map rowKey (parse_data pr)) \<and>
           sum_list (map barcode_range_count (people_data d)) = length (parse_data pr)"
    using d pw dis keys total by simp
next
  let ?rows = "parse_data pr"
  let ?ks = "firstSeen (map rowKey ?rows)"
  assume a: "success (analyzeBarcodes_default parse now content) \<and> parse (cleanContent content) = Inr pr"
  have total: "sum_list (map barcode_range_count
        (js_sort byCountDesc (map (\<lambda>k. personOfCount (k, countKey ?rows k)) ?ks))) = length ?rows"
    using sum_countKey [of ?rows] by (simp add: sum_js_sort comp_def)
  show "\<exists>d. data (analyzeBarcodes_default parse now content) = Some d \<and>
           people_data d =
             js_sort byCountDesc
               (map (\<lambda>k. personOfCount (k, length (filter (\<lambda>r. rowKey r = k) (parse_data pr))))
                  (firstSeen (map rowKey (parse_data pr)))) \<and>
           sum_list (map barcode_range_count (people_data d)) = length (parse_data pr)"
    using default_result [of parse now content pr] a total by (auto simp: countKey_def)
qed

theorem counts_match_rows_witness:
  "success (analyzeBarcodes_upload tsvParse noon scansFile) \<and>
   success (analyzeBarcodes_default tsvParse noon scansFile) \<and>
   tsvParse (cleanContent scansFile) = Inr \<lparr>parse_errors = [], parse_data = scansRows\<rparr> \<and>
   (\<exists>d. data (analyzeBarcodes_upload tsvParse noon scansFile) = Some d \<and>
        (\<forall>p\<in>set (people_data d).
            barcode_range_count p = length (filter (\<lambda>r. rowKey r = personKey p) scansRows)) \<and>
        distinct (map personKey (people_data d)) \<and>
        set (map personKey (people_data d)) = set (map rowKey scansRows) \<and>
        sum_list (map barcode_range_count (people_data d)) = length scansRows) \<and>
   (\<exists>d. data (analyzeBarcodes_default tsvParse noon scansFile) = Some d \<and>
        people_data d =
          js_sort byCountDesc
            (map (\<lambda>k. personOfCount (k, length (filter (\<lambda>r. rowKey r = k) scansRows)))
               (firstSeen (map rowKey scansRows))) \<and>
        sum_list (map barcode_range_count (people_data d)) = length scansRows)"
  (is "?A1 \<and> ?A2 \<and> ?P \<and> ?B1 \<and> ?B2")
proof -
  have a1: ?A1 by (rule scans_upload_ok)
  have a2: ?A2 by (rule scans_default_ok)
  have p: ?P by (rule scans_parse)
  note inst = counts_match_rows [of tsvParse noon scansFile
      "\<lparr>parse_errors = [], parse_data = scansRows\<rparr>"]
  from inst a1 p have b1: ?B1 by simp
  from inst a2 p have b2: ?B2 by simp
  from a1 a2 p b1 b2 show ?thesis by (intro conjI)
qed

section \<open>Names in the default route\<close>

text \<open>
  C10.  The default route recovers the names of a person by splitting the grouping key
  at underscores and taking the first two parts.  For a row whose \<open>firstname\<close> and
  \<open>lastname\<close> contain no underscore, the result has a person with exactly these names
  and the number of rows of that key.  A \<open>firstname\<close> that contains an underscore is never
  returned: the returned first name is the part before the first underscore.  In
  \<open>scansFile\<close> the person named \<open>Cy_Di\<close>, \<open>Ek\<close> comes out as \<open>Cy\<close>, \<open>Di\<close>.
\<close>

theorem default_names_round_trip:
  "(success (analyzeBarcodes_default parse now content) \<and> parse (cleanContent content) = Inr pr \<and>
    r \<in> set (parse_data pr) \<and> r (ustr ''firstname'') = Some f \<and> r (ustr ''lastname'') = Some l \<and>
    95 \<notin> set f \<and> 95 \<notin> set l \<longrightarrow>
      \<lparr>firstname = Some f, lastname = Some l,
       barcode_range_count = length (filter (\<lambda>r'. rowKey r' = rowKey r) (parse_data pr))\<rparr>
        \<in> set (peopleOf (analyzeBarcodes_default parse now content))) \<and>
   (95 \<in> set f' \<longrightarrow> firstname (personOfCount (f' @ ustr ''_'' @ l', n)) \<noteq> Some f') \<and>
   firstname (personOfCount (k, n)) = Some (takeWhile (\<lambda>c. c \<noteq> 95) k) \<and>
   map (\<lambda>r. (r (ustr ''firstname''), r (ustr ''lastname''))) scansRows =
     [(Some (ustr ''Ann''), Some (ustr ''Lee'')), (Some (ustr ''Bo''), Some (ustr ''Oz'')),
      (Some (ustr ''Cy_Di''), Some (ustr ''Ek'')), (Some (ustr ''Ann''), Some (ustr ''Lee'')),
      (Some (ustr ''Bo''), Some (ustr ''Oz''))] \<and>
   tsvParse (cleanContent scansFile) = Inr \<lparr>parse_errors = [], parse_data = scansRows\<rparr> \<and>
   map (\<lambda>p. (firstname p, lastname p)) (peopleOf (analyzeBarcodes_default tsvParse noon scansFile)) =
     [(Some (ustr ''Ann''), Some (ustr ''Lee'')), (Some (ustr ''Bo''), Some (ustr ''Oz'')),
      (Some (ustr ''Cy''), Some (ustr ''Di''))]"
proof (intro conjI impI)
  let ?rows = "parse_data pr"
  let ?ks = "firstSeen (map rowKey ?rows)"
  assume a: "success (analyzeBarcodes_default parse now content) \<and> parse (cleanContent content) = Inr pr \<and>
    r \<in> set (parse_data pr) \<and> r (ustr ''firstname'') = Some f \<and> r (ustr ''lastname'') = Some l \<and>
    95 \<notin> set f \<and> 95 \<notin> set l"
  then have key: "rowKey r = f @ ustr ''_'' @ l"
    by (simp add: rowKey_def template_def)
  have "personOfCount (rowKey r, countKey ?rows (rowKey r))
      \<in> set (map (\<lambda>k. personOfCount (k, countKey ?rows k)) ?ks)"
    using a by auto
  then have "personOfCount (rowKey r, countKey ?rows (rowKey r))
      \<in> set (peopleOf (analyzeBarcodes_default parse now content))"
    using default_result [of parse now content pr] a by (auto simp: peopleOf_def set_js_sort)
  moreover have "personOfCount (rowKey r, countKey ?rows (rowKey r)) =
      \<lparr>firstname = Some f, lastname = Some l, barcode_range_count = countKey ?rows (rowKey r)\<rparr>"
    using a by (simp add: key personOfCount_plain)
  ultimately show "\<lparr>firstname = Some f, lastname = Some l,
       barcode_range_count = length (filter (\<lambda>r'. rowKey r' = rowKey r) (parse_data pr))\<rparr>
        \<in> set (peopleOf (analyzeBarcodes_default parse now content))"
    by (simp add: countKey_def)
next
  assume "95 \<in> set f'"
  then show "firstname (personOfCount (f' @ ustr ''_'' @ l', n)) \<noteq> Some f'"
    by (rule firstname_lossy)
next
  show "firstname (personOfCount (k, n)) = Some (takeWhile (\<lambda>c. c \<noteq> 95) k)"
    by (rule firstname_personOfCount)
next
  show "map (\<lambda>r. (r (ustr ''firstname''), r (ustr ''lastname''))) scansRows =
     [(Some (ustr ''Ann''), Some (ustr ''Lee'')), (Some (ustr ''Bo''), Some (ustr ''Oz'')),
      (Some (ustr ''Cy_Di''), Some (ustr ''Ek'')), (Some (ustr ''Ann''), Some (ustr ''Lee'')),
      (Some (ustr ''Bo''), Some (ustr ''Oz''))]"
    by (rule scans_names)
next
  show "tsvParse (cleanContent scansFile) = Inr \<lparr>parse_errors = [], parse_data = scansRows\<rparr>"
    by (rule scans_parse)
next
  show "map (\<lambda>p. (firstname p, lastname p)) (peopleOf (analyzeBarcodes_default tsvParse noon scansFile)) =
     [(Some (ustr ''Ann''), Some (ustr ''Lee'')), (Some (ustr ''Bo''), Some (ustr ''Oz'')),
      (Some (ustr ''Cy''), Some (ustr ''Di''))]"
    by (rule scans_default_names)
qed

theorem default_names_round_trip_witness:
  "success (analyzeBarcodes_default tsvParse noon scansFile) \<and>
   tsvParse (cleanContent scansFile) = Inr \<lparr>parse_errors = [], parse_data = scansRows\<rparr> \<and>
   row18 [''firstname'', ''lastname'', ''BarcodeRangeID'', ''TimeEntered'']
      ''Ann'' ''Lee'' ''1'' ''09:00:00.000'' \<in> set scansRows \<and>
   row18 [''firstname'', ''lastname'', ''BarcodeRangeID'', ''TimeEntered'']
      ''Ann'' ''Lee'' ''1'' ''09:00:00.000'' (ustr ''firstname'') = Some (ustr ''Ann'') \<and>
   row18 [''firstname'', ''lastname'', ''BarcodeRangeID'', ''TimeEntered'']
      ''Ann'' ''Lee'' ''1'' ''09:00:00.000'' (ustr ''lastname'') = Some (ustr ''Lee'') \<and>
   95 \<notin> set (ustr ''Ann'') \<and> 95 \<notin> set (ustr ''Lee'') \<and>
   \<lparr>firstname = Some (ustr ''Ann''), lastname = Some (ustr ''Lee''),
    barcode_range_count =
      length (filter (\<lambda>r'. rowKey r' =
                rowKey (row18 [''firstname'', ''lastname'', ''BarcodeRangeID'', ''TimeEntered'']
                          ''Ann'' ''Lee'' ''1'' ''09:00:00.000'')) scansRows)\<rparr>
     \<in> set (peopleOf (analyzeBarcodes_default tsvParse noon scansFile)) \<and>
   95 \<in> set (ustr ''Cy_Di'') \<and>
   firstname (personOfCount (ustr ''Cy_Di'' @ ustr ''_'' @ ustr ''Ek'', 1)) \<noteq> Some (ustr ''Cy_Di'')"
  (is "?A \<and> ?P \<and> ?R \<and> ?F \<and> ?L \<and> ?NF \<and> ?NL \<and> ?B \<and> ?U \<and> ?C")
proof -
  let ?r = "row18 [''firstname'', ''lastname'', ''BarcodeRangeID'', ''TimeEntered'']
              ''Ann'' ''Lee'' ''1'' ''09:00:00.000''"
  have a: ?A by (rule scans_default_ok)
  have p: ?P by (rule scans_parse)
  have r: ?R by (simp add: scansRows_def)
  have f: ?F by (simp add: row18_def ustr_def)
  have l: ?L by (simp add: row18_def ustr_def)
  have nf: ?NF by (simp add: ustr_def)
  have nl: ?NL by (simp add: ustr_def)
  have u: ?U by (simp add: ustr_def)
  note inst = default_names_round_trip [of tsvParse noon scansFile
      "\<lparr>parse_errors = [], parse_data = scansRows\<rparr>" ?r "ustr ''Ann''" "ustr ''Lee''"
      "ustr ''Cy_Di''" "ustr ''Ek''" 1]
  from inst a p r f l nf nl have b: ?B by simp
  from inst u have c: ?C by simp
  from a p r f l nf nl b u c show ?thesis by (intro conjI)
qed

section \<open>Missing columns\<close>

text \<open>
  C6.  When the parser has returned and the first parsed row lacks a required column
  (\<open>firstname\<close>, \<open>lastname\<close>, \<open>BarcodeRangeID\<close> and, in the upload route only,
  \<open>TimeEntered\<close>), the result is a failure; when the parser reported no error, its
  message is \<open>Missing required columns: \<close> followed by exactly the missing columns, in the
  order of the list, separated by a comma and a space.  In particular a first row
  without \<open>lastname\<close> gives a message that names \<open>lastname\<close>.
\<close>

theorem missing_columns_rejected:
  "requiredColumns_upload =
     [ustr ''firstname'', ustr ''lastname'', ustr ''BarcodeRangeID'', ustr ''TimeEntered''] \<and>
   requiredColumns_default = [ustr ''firstname'', ustr ''lastname'', ustr ''BarcodeRangeID''] \<and>
   (parse (cleanContent content) = Inr pr \<and> parse_data pr = r # rest \<and>
    filter (\<lambda>c. r c = None) requiredColumns_upload \<noteq> [] \<longrightarrow>
      \<not> success (analyzeBarcodes_upload parse now content) \<and>
      (parse_errors pr = [] \<longrightarrow>
         analyzeBarcodes_upload parse now content =
           \<lparr>success = False, data = None,
            error = Some (ustr ''Missing required columns: '' @
                          join (ustr '', '') (filter (\<lambda>c. r c = None) requiredColumns_upload))\<rparr>) \<and>
      (parse_errors pr = [] \<and> r (ustr ''lastname'') = None \<longrightarrow>
         (\<exists>u v. error (analyzeBarcodes_upload parse now content) = Some (u @ ustr ''lastname'' @ v)))) \<and>
   (parse (cleanContent content) = Inr pr \<and> parse_data pr = r # rest \<and>
    filter (\<lambda>c. r c = None) requiredColumns_default \<noteq> [] \<longrightarrow>
      \<not> success (analyzeBarcodes_default parse now content) \<and>
      (parse_errors pr = [] \<longrightarrow>
         analyzeBarcodes_default parse now content =
           \<lparr>success = False, data = None,
            error = Some (ustr ''Missing required columns: '' @
                          join (ustr '', '') (filter (\<lambda>c. r c = None) requiredColumns_default))\<rparr>) \<and>
      (parse_errors pr = [] \<and> r (ustr ''lastname'') = None \<longrightarrow>
         (\<exists>u v. error (analyzeBarcodes_default parse now content) = Some (u @ ustr ''lastname'' @ v))))"
proof (intro conjI impI)
  show "requiredColumns_upload =
     [ustr ''firstname'', ustr ''lastname'', ustr ''BarcodeRangeID'', ustr ''TimeEntered'']"
    by (simp add: requiredColumns_upload_def)
  show "requiredColumns_default = [ustr ''firstname'', ustr ''lastname'', ustr ''BarcodeRangeID'']"
    by (simp add: requiredColumns_default_def)
next
  assume a: "parse (cleanContent content) = Inr pr \<and> parse_data pr = r # rest \<and>
    filter (\<lambda>c. r c = None) requiredColumns_upload \<noteq> []"
  then show "\<not> success (analyzeBarcodes_upload parse now content)"
    using upload_missing_fails by blast
  {
    assume e: "parse_errors pr = []"
    with a show "analyzeBarcodes_upload parse now content =
           \<lparr>success = False, data = None,
            error = Some (ustr ''Missing required columns: '' @
                          join (ustr '', '') (filter (\<lambda>c. r c = None) requiredColumns_upload))\<rparr>"
      using upload_missing by blast
  }
  {
    assume e: "parse_errors pr = [] \<and> r (ustr ''lastname'') = None"
    then have "ustr ''lastname'' \<in> set (filter (\<lambda>c. r c = None) requiredColumns_upload)"
      by (simp add: requiredColumns_upload_def)
    then obtain u v where
      "join (ustr '', '') (filter (\<lambda>c. r c = None) requiredColumns_upload) = u @ ustr ''lastname'' @ v"
      using join_names by blast
    then have "error (analyzeBarcodes_upload parse now content) =
        Some ((ustr ''Missing required columns: '' @ u) @ ustr ''lastname'' @ v)"
      using upload_missing [of parse content pr r rest now] a e by simp
    then show "\<exists>u v. error (analyzeBarcodes_upload parse now content) = Some (u @ ustr ''lastname'' @ v)"
      by blast
  }
next
  assume a: "parse (cleanContent content) = Inr pr \<and> parse_data pr = r # rest \<and>
    filter (\<lambda>c. r c = None) requiredColumns_default \<noteq> []"
  then show "\<not> success (analyzeBarcodes_default parse now content)"
    using default_missing_fails by blast
  {
    assume e: "parse_errors pr = []"
    with a show "analyzeBarcodes_default parse now content =
           \<lparr>success = False, data = None,
            error = Some (ustr ''Missing required columns: '' @
                          join (ustr '', '') (filter (\<lambda>c. r c = None) requiredColumns_default))\<rparr>"
      using default_missing by blast
  }
  {
    assume e: "parse_errors pr = [] \<and> r (ustr ''lastname'') = None"
    then have "ustr ''lastname'' \<in> set (filter (\<lambda>c. r c = None) requiredColumns_default)"
      by (simp add: requiredColumns_default_def)
    then obtain u v where
      "join (ustr '', '') (filter (\<lambda>c. r c = None) requiredColumns_default) = u @ ustr ''lastname'' @ v"
      using join_names by blast
    then have "error (analyzeBarcodes_default parse now content) =
        Some ((ustr ''Missing required columns: '' @ u) @ ustr ''lastname'' @ v)"
      using default_missing [of parse content pr r rest now] a e by simp
    then show "\<exists>u v. error (analyzeBarcodes_default parse now content) = Some (u @ ustr ''lastname'' @ v)"
      by blast
  }
qed

theorem missing_columns_rejected_witness:
  "tsvParse (cleanContent noLastnameFile) =
     Inr \<lparr>parse_errors = [],
          parse_data = [row18 [''firstname'', ''surname'', ''BarcodeRangeID'', ''TimeEntered'']
                          ''Ann'' ''Lee'' ''1'' ''09:00:00.000'']\<rparr> \<and>
   row18 [''firstname'', ''surname'', ''BarcodeRangeID'', ''TimeEntered'']
     ''Ann'' ''Lee'' ''1'' ''09:00:00.000'' (ustr ''lastname'') = None \<and>
   analyzeBarcodes_upload tsvParse noon noLastnameFile =
     \<lparr>success = False, data = None, error = Some (ustr ''Missing required columns: lastname'')\<rparr> \<and>
   analyzeBarcodes_default tsvParse noon noLastnameFile =
     \<lparr>success = False, data = None, error = Some (ustr ''Missing required columns: lastname'')\<rparr>"
  (is "?P \<and> ?N \<and> ?U \<and> ?D")
proof -
  let ?r = "row18 [''firstname'', ''surname'', ''BarcodeRangeID'', ''TimeEntered'']
              ''Ann'' ''Lee'' ''1'' ''09:00:00.000''"
  have p: ?P by (rule nolast_parse)
  have n: ?N by (simp add: row18_def ustr_def)
  note inst = missing_columns_rejected [of tsvParse noLastnameFile
      "\<lparr>parse_errors = [], parse_data = [?r]\<rparr>" ?r "[]" noon]
  have msg: "ustr ''Missing required columns: '' @ ustr ''lastname'' =
      ustr ''Missing required columns: lastname''"
    by (simp add: ustr_def)
  from inst p nolast_missing have u: ?U by (simp add: msg)
  from inst p nolast_missing have d: ?D by (simp add: msg)
  from p n u d show ?thesis by (intro conjI)
qed

section \<open>Encoding detection\<close>

text \<open>
  C7, as amended.  A buffer of at least two bytes that starts with FF FE or FE FF is
  UTF-16LE whatever follows.  For any other buffer the result is the first of UTF-16LE,
  UTF-8, Latin-1, ASCII whose decoding contains a comma, a tab or \<open>firstname\<close>, and
  UTF-8 if there is none.  For a buffer of bytes from 01 to 7F that contains a comma the
  result is UTF-8, and it decodes the buffer to the code units of the same numbers as the
  bytes.  The claim as stated also covers ASCII buffers with a zero byte, where it fails:
  see the counterexample.
\<close>

theorem detectEncoding_rules:
  "(2 \<le> length b \<and> (b ! 0 = 0xFF \<and> b ! 1 = 0xFE \<or> b ! 0 = 0xFE \<and> b ! 1 = 0xFF) \<longrightarrow>
      detectEncoding b = utf16le) \<and>
   (\<not> (2 \<le> length b \<and> (b ! 0 = 0xFF \<and> b ! 1 = 0xFE \<or> b ! 0 = 0xFE \<and> b ! 1 = 0xFF)) \<longrightarrow>
      detectEncoding b =
        (case find (\<lambda>e. 44 \<in> set (toString b e) \<or> 9 \<in> set (toString b e) \<or>
                        (\<exists>u v. toString b e = u @ ustr ''firstname'' @ v))
                [utf16le, utf8, latin1, ascii] of
           None \<Rightarrow> utf8 | Some e \<Rightarrow> e)) \<and>
   ((\<forall>x\<in>set b. x \<noteq> 0 \<and> x < 0x80) \<and> 0x2C \<in> set b \<longrightarrow>
      detectEncoding b = utf8 \<and> toString b (detectEncoding b) = map unat b)"
proof (intro conjI impI)
  assume "2 \<le> length b \<and> (b ! 0 = 0xFF \<and> b ! 1 = 0xFE \<or> b ! 0 = 0xFE \<and> b ! 1 = 0xFF)"
  then show "detectEncoding b = utf16le"
    by (auto simp: detectEncoding_def)
next
  assume "\<not> (2 \<le> length b \<and> (b ! 0 = 0xFF \<and> b ! 1 = 0xFE \<or> b ! 0 = 0xFE \<and> b ! 1 = 0xFF))"
  then have "detectEncoding b = firstEncoding b [utf16le, utf8, latin1, ascii]"
    by (auto simp: detectEncoding_def)
  also have "\<dots> = (case find (\<lambda>e. looksLikeCsv (toString b e)) [utf16le, utf8, latin1, ascii] of
           None \<Rightarrow> utf8 | Some e \<Rightarrow> e)"
    by (rule firstEncoding_find)
  finally show "detectEncoding b =
        (case find (\<lambda>e. 44 \<in> set (toString b e) \<or> 9 \<in> set (toString b e) \<or>
                        (\<exists>u v. toString b e = u @ ustr ''firstname'' @ v))
                [utf16le, utf8, latin1, ascii] of
           None \<Rightarrow> utf8 | Some e \<Rightarrow> e)"
    by (simp only: looksLikeCsv_iff)
next
  assume a: "(\<forall>x\<in>set b. x \<noteq> 0 \<and> x < 0x80) \<and> 0x2C \<in> set b"
  then show "detectEncoding b = utf8" by (simp add: detect_ascii)
  with a show "toString b (detectEncoding b) = map unat b" by (simp add: detect_ascii)
qed

theorem detectEncoding_rules_witness:
  "2 \<le> length [0xFF, 0xFE, 0x41, 0x00 :: byte] \<and>
   ([0xFF, 0xFE, 0x41, 0x00 :: byte] ! 0 = 0xFF \<and> [0xFF, 0xFE, 0x41, 0x00 :: byte] ! 1 = 0xFE \<or>
    [0xFF, 0xFE, 0x41, 0x00 :: byte] ! 0 = 0xFE \<and> [0xFF, 0xFE, 0x41, 0x00 :: byte] ! 1 = 0xFF) \<and>
   detectEncoding [0xFF, 0xFE, 0x41, 0x00] = utf16le \<and>
   list_all (\<lambda>x. x \<noteq> 0 \<and> x < 0x80) [0x61, 0x2C, 0x62 :: byte] \<and>
   0x2C \<in> set [0x61, 0x2C, 0x62 :: byte] \<and>
   detectEncoding [0x61, 0x2C, 0x62] = utf8 \<and>
   toString [0x61, 0x2C, 0x62] (detectEncoding [0x61, 0x2C, 0x62]) = [0x61, 0x2C, 0x62] \<and>
   detectEncoding [0x61, 0x62] =
     (case find (\<lambda>e. 44 \<in> set (toString [0x61, 0x62] e) \<or> 9 \<in> set (toString [0x61, 0x62] e) \<or>
                     (\<exists>u v. toString [0x61, 0x62] e = u @ ustr ''firstname'' @ v))
             [utf16le, utf8, latin1, ascii] of
        None \<Rightarrow> utf8 | Some e \<Rightarrow> e)"
  (is "?L \<and> ?M \<and> ?B1 \<and> ?A \<and> ?C \<and> ?B3 \<and> ?B4 \<and> ?B2")
proof -
  have l: ?L by simp
  have m: ?M by simp
  have a: ?A by simp
  have c: ?C by simp
  from detectEncoding_rules [of "[0xFF, 0xFE, 0x41, 0x00]"] l m have b1: ?B1 by blast
  have h3: "(\<forall>x\<in>set [0x61, 0x2C, 0x62 :: byte]. x \<noteq> 0 \<and> x < 0x80) \<and> 0x2C \<in> set [0x61, 0x2C, 0x62 :: byte]"
    by simp
  from detectEncoding_rules [of "[0x61, 0x2C, 0x62]"] h3 have b3: ?B3 by blast
  from detectEncoding_rules [of "[0x61, 0x2C, 0x62]"] h3
  have "toString [0x61, 0x2C, 0x62] (detectEncoding [0x61, 0x2C, 0x62]) = map unat [0x61, 0x2C, 0x62 :: byte]"
    by blast
  then have b4: ?B4 by simp
  have h2: "\<not> (2 \<le> length [0x61, 0x62 :: byte] \<and>
      ([0x61, 0x62 :: byte] ! 0 = 0xFF \<and> [0x61, 0x62 :: byte] ! 1 = 0xFE \<or>
       [0x61, 0x62 :: byte] ! 0 = 0xFE \<and> [0x61, 0x62 :: byte] ! 1 = 0xFF))"
    by simp
  from detectEncoding_rules [of "[0x61, 0x62]", THEN conjunct2, THEN conjunct1] h2
  have b2: ?B2 by (rule mp)
  from l m b1 a c b3 b4 b2 show ?thesis by (intro conjI)
qed

text \<open>
  The text \<open>a,b\<close> in UTF-16LE without a byte order mark is a buffer of six bytes below
  80 that contains a comma; it is detected as UTF-16LE and decoded to three code units.
\<close>

theorem detectEncoding_ascii_counterexample:
  "(0x61 :: byte) < 0x80 \<and> (0x00 :: byte) < 0x80 \<and> (0x2C :: byte) < 0x80 \<and> (0x62 :: byte) < 0x80 \<and>
   0x2C \<in> set [0x61, 0x00, 0x2C, 0x00, 0x62, 0x00 :: byte] \<and>
   detectEncoding [0x61, 0x00, 0x2C, 0x00, 0x62, 0x00] = utf16le \<and>
   toString [0x61, 0x00, 0x2C, 0x00, 0x62, 0x00] (detectEncoding [0x61, 0x00, 0x2C, 0x00, 0x62, 0x00]) =
     [0x61, 0x2C, 0x62] \<and>
   map unat [0x61, 0x00, 0x2C, 0x00, 0x62, 0x00 :: byte] = [0x61, 0x00, 0x2C, 0x00, 0x62, 0x00]"
  by (simp add: detectEncoding_def toString_def looksLikeCsv_def startsWith_def)

section \<open>The default file\<close>

text \<open>
  C9.  The handler of the default route looks for \<open>public/data/Taskmaster.csv\<close> under
  the working directory.  If the file does not exist the result is the failure
  \<open>Default file not found\<close>.  Every result is a well-formed envelope, a success with
  data and no error or a failure with an error message and no data: an exception of the
  file read, of the parser or of the analysis becomes a failure.  A success needs the
  file to exist, and its \<open>filename\<close> is \<open>Taskmaster.csv\<close>.
\<close>

theorem GET_default_file:
  "defaultFilePath rt = path_join rt [cwd rt, ustr ''public'', ustr ''data'', ustr ''Taskmaster.csv''] \<and>
   (\<not> existsSync rt (defaultFilePath rt) \<longrightarrow>
      GET rt = \<lparr>success = False, data = None, error = Some (ustr ''Default file not found'')\<rparr>) \<and>
   (success (GET rt) \<longrightarrow>
      existsSync rt (defaultFilePath rt) \<and>
      (\<exists>d. data (GET rt) = Some d \<and> filename d = ustr ''Taskmaster.csv'') \<and>
      error (GET rt) = None) \<and>
   (\<not> success (GET rt) \<longrightarrow> data (GET rt) = None \<and> (\<exists>msg. error (GET rt) = Some msg))"
proof (intro conjI impI)
  show "defaultFilePath rt = path_join rt [cwd rt, ustr ''public'', ustr ''data'', ustr ''Taskmaster.csv'']"
    by (simp add: defaultFilePath_def)
next
  assume "\<not> existsSync rt (defaultFilePath rt)"
  then show "GET rt = \<lparr>success = False, data = None, error = Some (ustr ''Default file not found'')\<rparr>"
    by (simp add: GET_def failure_def)
next
  assume s: "success (GET rt)"
  with GET_envelope [of rt] show "existsSync rt (defaultFilePath rt)" by blast
  from s GET_envelope [of rt]
  show "\<exists>d. data (GET rt) = Some d \<and> filename d = ustr ''Taskmaster.csv''" by blast
  from s GET_envelope [of rt] show "error (GET rt) = None" by blast
next
  assume s: "\<not> success (GET rt)"
  with GET_envelope [of rt] show "data (GET rt) = None" by blast
  from s GET_envelope [of rt] show "\<exists>msg. error (GET rt) = Some msg" by blast
qed

theorem GET_default_file_witness:
  "\<not> existsSync noFileRuntime (defaultFilePath noFileRuntime) \<and>
   GET noFileRuntime =
     \<lparr>success = False, data = None, error = Some (ustr ''Default file not found'')\<rparr> \<and>
   \<not> success (GET noFileRuntime) \<and>
   data (GET noFileRuntime) = None \<and> (\<exists>msg. error (GET noFileRuntime) = Some msg) \<and>
   success (GET bundledRuntime) \<and>
   existsSync bundledRuntime (defaultFilePath bundledRuntime) \<and>
   (\<exists>d. data (GET bundledRuntime) = Some d \<and> filename d = ustr ''Taskmaster.csv'') \<and>
   error (GET bundledRuntime) = None"
  (is "?N \<and> ?F \<and> ?NS \<and> ?D \<and> ?M \<and> ?S \<and> ?E \<and> ?T \<and> ?R")
proof -
  have n: ?N by (simp add: noFileRuntime_def)
  from GET_default_file [of noFileRuntime] n have f: ?F by blast
  then have ns: ?NS by simp
  from GET_default_file [of noFileRuntime] ns have d: ?D and m: ?M by blast+
  have s: ?S by (simp add: GET_bundled scans_default_ok)
  from GET_default_file [of bundledRuntime] s have e: ?E and t: ?T and r: ?R by blast+
  from n f ns d m s e t r show ?thesis by (intro conjI)
qed

section \<open>Line cleaning\<close>

text \<open>
  C8.  A line is kept exactly when, after trimming, it is not empty, is not a bare
  carriage return, is not digits followed by \<open> rows affected\<close> in any letter case with an
  optional closing parenthesis, and splits at tabs into at least 18 fields.  A line of
  fewer than 18 tab-separated fields is never kept, nor is a line of digits followed by
  \<open> rows affected\<close> or \<open> rows affected)\<close>, such as \<open>12 rows affected)\<close>.  The parser is
  given the kept lines joined by line feeds: the lines of its input are the kept lines,
  and the result of a route depends on the content only through this text.
\<close>

theorem line_cleaning:
  "(keepLine line \<longleftrightarrow>
      \<not> (trim line = [] \<or> trim line = [13] \<or>
         (\<exists>ds rest. trim line = ds @ rest \<and> ds \<noteq> [] \<and> list_all isDigit ds \<and>
            (map toLowerAscii rest = ustr '' rows affected'' \<or>
             map toLowerAscii rest = ustr '' rows affected)'')) \<or>
         length (split 9 (trim line)) < 18)) \<and>
   (length (split 9 line) < 18 \<longrightarrow> \<not> keepLine line) \<and>
   (ds \<noteq> [] \<and> list_all isDigit ds \<and>
    (map toLowerAscii rest = ustr '' rows affected'' \<or>
     map toLowerAscii rest = ustr '' rows affected)'') \<longrightarrow> \<not> keepLine (ds @ rest)) \<and>
   \<not> keepLine (ustr ''12 rows affected)'') \<and>
   cleanContent content = join [10] (filter keepLine (split 10 content)) \<and>
   split 10 (cleanContent content) =
     (case filter keepLine (split 10 content) of [] \<Rightarrow> [[]] | l # ls \<Rightarrow> l # ls) \<and>
   (cleanContent content = cleanContent content' \<longrightarrow>
      analyzeBarcodes_upload parse now content = analyzeBarcodes_upload parse now content' \<and>
      analyzeBarcodes_default parse now content = analyzeBarcodes_default parse now content')"
proof (intro conjI impI)
  show "keepLine line \<longleftrightarrow>
      \<not> (trim line = [] \<or> trim line = [13] \<or>
         (\<exists>ds rest. trim line = ds @ rest \<and> ds \<noteq> [] \<and> list_all isDigit ds \<and>
            (map toLowerAscii rest = ustr '' rows affected'' \<or>
             map toLowerAscii rest = ustr '' rows affected)'')) \<or>
         length (split 9 (trim line)) < 18)"
    by (simp only: keepLine_def Let_def matchesRowsAffected_iff de_Morgan_disj not_less)
next
  assume "length (split 9 line) < 18"
  then have "length (split 9 (trim line)) < 18"
    using fields_trim_le [of 9 line] by linarith
  then show "\<not> keepLine line"
    by (simp add: keepLine_def Let_def)
next
  assume a: "ds \<noteq> [] \<and> list_all isDigit ds \<and>
    (map toLowerAscii rest = ustr '' rows affected'' \<or>
     map toLowerAscii rest = ustr '' rows affected)'')"
  then have "trim (ds @ rest) = ds @ rest" by (simp add: trim_rows_affected)
  moreover from a have "matchesRowsAffected (ds @ rest)"
    unfolding matchesRowsAffected_iff by blast
  ultimately show "\<not> keepLine (ds @ rest)"
    by (simp add: keepLine_def Let_def)
next
  show "\<not> keepLine (ustr ''12 rows affected)'')"
    by (simp add: str_defs)
next
  show "cleanContent content = join [10] (filter keepLine (split 10 content))"
    by (simp add: cleanContent_def)
next
  show "split 10 (cleanContent content) =
     (case filter keepLine (split 10 content) of [] \<Rightarrow> [[]] | l # ls \<Rightarrow> l # ls)"
    by (rule lines_of_cleanContent)
next
  assume e: "cleanContent content = cleanContent content'"
  then show "analyzeBarcodes_upload parse now content = analyzeBarcodes_upload parse now content'"
    by (simp add: analyzeBarcodes_upload_def analyzeBody_upload_def)
  from e show "analyzeBarcodes_default parse now content = analyzeBarcodes_default parse now content'"
    by (simp add: analyzeBarcodes_default_def analyzeBody_default_def)
qed

theorem line_cleaning_witness:
  "length (split 9 [97, 9, 98]) < 18 \<and>
   \<not> keepLine [97, 9, 98] \<and>
   ustr ''12'' \<noteq> [] \<and> list_all isDigit (ustr ''12'') \<and>
   (map toLowerAscii (ustr '' Rows AFFECTED)'') = ustr '' rows affected'' \<or>
    map toLowerAscii (ustr '' Rows AFFECTED)'') = ustr '' rows affected)'') \<and>
   \<not> keepLine (ustr ''12'' @ ustr '' Rows AFFECTED)'') \<and>
   cleanContent (ustr ''x'') = cleanContent (ustr ''12 rows affected'') \<and>
   analyzeBarcodes_upload tsvParse noon (ustr ''x'') =
     analyzeBarcodes_upload tsvParse noon (ustr ''12 rows affected'') \<and>
   analyzeBarcodes_default tsvParse noon (ustr ''x'') =
     analyzeBarcodes_default tsvParse noon (ustr ''12 rows affected'')"
  (is "?H1 \<and> ?B1 \<and> ?H2 \<and> ?H3 \<and> ?H4 \<and> ?B2 \<and> ?H5 \<and> ?B3 \<and> ?B4")
proof -
  have h1: ?H1 by simp
  have h2: ?H2 by (simp add: ustr_def)
  have h3: ?H3 by (simp add: ustr_def isDigit_def)
  have h4: ?H4 by (simp add: ustr_def toLowerAscii_def)
  have h5: ?H5 by (simp add: cleanContent_def str_defs)
  from line_cleaning [of "[97, 9, 98]"] h1 have b1: ?B1 by blast
  from line_cleaning [of _ "ustr ''12''" "ustr '' Rows AFFECTED)''"] h2 h3 h4 have b2: ?B2 by blast
  from line_cleaning [of _ _ _ "ustr ''x''" "ustr ''12 rows affected''" tsvParse noon] h5
  have b3: ?B3 and b4: ?B4 by blast+
  from h1 b1 h2 h3 h4 b2 h5 b3 b4 show ?thesis by (intro conjI)
qed

section \<open>The rate\<close>

text \<open>
  C2, as amended.  For every person of a successful result of the upload route, with
  \<open>hoursOf\<close> the sum of the durations of the person's work periods before rounding:
  \<open>total_hours_worked\<close> is that sum rounded to two decimals; \<open>barcodes_per_hour\<close> is the
  count divided by the sum, rounded to two decimals, when the sum is greater than 0, and
  0 otherwise (also when the sum is \<open>NaN\<close>).  The division is made only with a divisor
  greater than 0, and a sum of 0 gives the rate 0.  The field \<open>total_hours_worked\<close> can
  be 0 while the rate is not: see the counterexample.
\<close>

theorem rate_zero_guard:
  "success (analyzeBarcodes_upload parse now content) \<longrightarrow>
     (\<forall>p\<in>set (peopleOf (analyzeBarcodes_upload parse now content)).
         total_hours_worked p = round2 (hoursOf p) \<and>
         barcodes_per_hour p =
           (if n_gt (hoursOf p) (Fin 0)
            then round2 (n_div (of_count (barcode_range_count p)) (hoursOf p)) else Fin 0) \<and>
         (n_gt (hoursOf p) (Fin 0) \<longrightarrow> hoursOf p \<noteq> Fin 0) \<and>
         (hoursOf p = Fin 0 \<longrightarrow> barcodes_per_hour p = Fin 0))"
proof (intro impI ballI)
  fix p
  assume s: "success (analyzeBarcodes_upload parse now content)"
    and p: "p \<in> set (peopleOf (analyzeBarcodes_upload parse now content))"
  from upload_success [OF s] obtain pr :: ParseResult and people where
    m: "map_exn personOfEntry (map snd (foldl groupRow_upload [] (parse_data pr))) = Inr people"
    and r: "analyzeBarcodes_upload parse now content =
            finishAnalysis (ustr ''uploaded_file.csv'') now people"
    by auto
  from p r have "p \<in> set people"
    by (simp add: peopleOf_def finishAnalysis_data set_js_sort)
  with map_exn_member [OF m] obtain e where e: "personOfEntry e = Inr p" by blast
  note rate = personOfEntry_rate [OF e]
  show "total_hours_worked p = round2 (hoursOf p) \<and>
         barcodes_per_hour p =
           (if n_gt (hoursOf p) (Fin 0)
            then round2 (n_div (of_count (barcode_range_count p)) (hoursOf p)) else Fin 0) \<and>
         (n_gt (hoursOf p) (Fin 0) \<longrightarrow> hoursOf p \<noteq> Fin 0) \<and>
         (hoursOf p = Fin 0 \<longrightarrow> barcodes_per_hour p = Fin 0)"
    using rate n_gt_zero_nonzero [of "hoursOf p"] by auto
qed

theorem rate_zero_guard_witness:
  "success (analyzeBarcodes_upload tsvParse noon scansFile) \<and>
   list_all
     (\<lambda>p. total_hours_worked p = round2 (hoursOf p) \<and>
          barcodes_per_hour p =
            (if n_gt (hoursOf p) (Fin 0)
             then round2 (n_div (of_count (barcode_range_count p)) (hoursOf p)) else Fin 0) \<and>
          (n_gt (hoursOf p) (Fin 0) \<longrightarrow> hoursOf p \<noteq> Fin 0) \<and>
          (hoursOf p = Fin 0 \<longrightarrow> barcodes_per_hour p = Fin 0))
     (peopleOf (analyzeBarcodes_upload tsvParse noon scansFile)) \<and>
   map hoursOf (peopleOf (analyzeBarcodes_upload tsvParse noon scansFile)) =
     [dbl (1 / 240), Fin 0, Fin 0]"
  (is "?S \<and> ?B \<and> ?H")
proof -
  have s: ?S by (rule scans_upload_ok)
  from rate_zero_guard [of tsvParse noon scansFile] s have b: ?B
    unfolding list_all_iff by (rule mp)
  have h: ?H by (simp add: scans_upload peopleOf_def hoursOf_def dbl_defs)
  from s b h show ?thesis by (intro conjI)
qed

text \<open>
  In \<open>scansFile\<close> the two scans of Ann Lee are fifteen seconds apart: her hours are the
  double nearest to 1/240, which rounds to 0, and her rate is 2 divided by them, which
  rounds to 480.
\<close>

theorem rate_zero_guard_counterexample:
  "success (analyzeBarcodes_upload tsvParse noon scansFile) \<and>
   map total_hours_worked (peopleOf (analyzeBarcodes_upload tsvParse noon scansFile)) =
     [Fin 0, Fin 0, Fin 0] \<and>
   map barcodes_per_hour (peopleOf (analyzeBarcodes_upload tsvParse noon scansFile)) =
     [Fin 480, Fin 0, Fin 0]"
  by (simp add: scans_upload peopleOf_def)

end
